theory Spec2Isabelle
  imports Main "HOL-Library.Word" "HOL-Library.Finite_Map"
begin

section \<open>Values of the subgraph runtime\<close>

text \<open>
  The two mapping handlers of the repository are written against the subgraph runtime
  library: \<^verbatim>\<open>Bytes\<close> is a byte array, \<^verbatim>\<open>BigInt\<close> an unbounded integer, \<^verbatim>\<open>i32\<close> a 32-bit
  machine integer. An entity field holds a tagged value.
\<close>

type_synonym Bytes = "8 word list"
type_synonym BigInt = int
type_synonym i32 = "32 word"

datatype Value = VString string | VBytes Bytes | VBigInt BigInt

text \<open>
  The failures of an invocation: the overflow assertion of \<^verbatim>\<open>BigInt.toI32\<close>; the abort
  of a parameter getter on an absent parameter or on a value of another kind, which the
  specification calls \<^verbatim>\<open>MalformedEvent\<close>; and the store that cannot be reached, which the
  specification calls \<^verbatim>\<open>StoreUnavailable\<close>.
\<close>

datatype error = Overflow | MalformedEvent | StoreUnavailable

text \<open>
  \<^verbatim>\<open>BigInt.toI32()\<close> of the runtime library. The library reads the little-endian two's
  complement bytes of the number: every byte from index 4 on must equal the sign padding
  (0 for a non-negative number, 255 for a negative one), otherwise the assertion
  "overflow converting ... to i32" aborts the handler; the low four bytes are the result.
  On integers: a number in \<open>[-2^32, 2^32)\<close> passes and is reduced modulo \<open>2^32\<close>, any other
  aborts. For a number that fits an \<^verbatim>\<open>i32\<close> the result is that number.
\<close>

definition toI32 :: "BigInt \<Rightarrow> error + i32" where
  "toI32 n = (if - (2 ^ 32) \<le> n \<and> n < 2 ^ 32 then Inr (word_of_int n) else Inl Overflow)"

text \<open>
  \<^verbatim>\<open>ByteArray.fromI32(x)\<close>: four bytes, least significant first
  (\<^verbatim>\<open>x as u8\<close>, \<^verbatim>\<open>(x >> 8) as u8\<close>, \<^verbatim>\<open>(x >> 16) as u8\<close>, \<^verbatim>\<open>(x >> 24) as u8\<close>;
  \<^verbatim>\<open>>>\<close> on an \<^verbatim>\<open>i32\<close> is the arithmetic shift).
\<close>

definition fromI32 :: "i32 \<Rightarrow> Bytes" where
  "fromI32 x =
     [ucast x, ucast (signed_drop_bit 8 x), ucast (signed_drop_bit 16 x),
      ucast (signed_drop_bit 24 x)]"

text \<open>\<^verbatim>\<open>Bytes.concatI32(other)\<close>: the receiver followed by \<^verbatim>\<open>fromI32(other)\<close>.\<close>

definition concatI32 :: "Bytes \<Rightarrow> i32 \<Rightarrow> Bytes" where
  "concatI32 bs x = bs @ fromI32 x"

text \<open>
  The big-endian encoding the specification names, for comparison with \<open>fromI32\<close>:
  the same four bytes, most significant first.
\<close>

definition bigEndianI32 :: "i32 \<Rightarrow> Bytes" where
  "bigEndianI32 x =
     [ucast (drop_bit 24 x), ucast (drop_bit 16 x), ucast (drop_bit 8 x), ucast x]"

text \<open>
  \<^verbatim>\<open>Bytes.toHex()\<close>: \<^verbatim>\<open>0x\<close> followed by two lower-case hexadecimal digits per byte.
\<close>

definition hexDigit :: "nat \<Rightarrow> char" where
  "hexDigit n = ''0123456789abcdef'' ! (n mod 16)"

definition byteToHex :: "8 word \<Rightarrow> string" where
  "byteToHex b = [hexDigit (unat b div 16), hexDigit (unat b mod 16)]"

definition toHex :: "Bytes \<Rightarrow> string" where
  "toHex bs = ''0x'' @ concat (map byteToHex bs)"

text \<open>\<^verbatim>\<open>BigInt.toString()\<close>: the decimal digits, after a minus sign for a negative number.\<close>

definition digitChar :: "nat \<Rightarrow> char" where
  "digitChar n = ''0123456789'' ! (n mod 10)"

fun natToString :: "nat \<Rightarrow> string" where
  "natToString n =
     (if n < 10 then [digitChar n] else natToString (n div 10) @ [digitChar (n mod 10)])"

declare natToString.simps [simp del]

definition bigIntToString :: "BigInt \<Rightarrow> string" where
  "bigIntToString n =
     (if n < 0 then CHR ''-'' # natToString (nat (- n)) else natToString (nat n))"

section \<open>The decoded event\<close>

text \<open>
  The event class \<^verbatim>\<open>ApiCallProved\<close> of \<^verbatim>\<open>generated/ApiCallsRegistry\<close>, once its four
  parameter getters have returned (the event as delivered, with getters that can abort,
  follows further down), restricted to what
  the handlers read: \<^verbatim>\<open>event.transaction.hash\<close>, \<^verbatim>\<open>event.logIndex\<close>,
  \<^verbatim>\<open>event.block.number\<close>, \<^verbatim>\<open>event.block.timestamp\<close> and the four parameters of the
  contract's event (three strings and the emitter's address).
\<close>

record Transaction =
  hash :: Bytes

record Block =
  number :: BigInt
  timestamp :: BigInt

record Params =
  callId :: string
  requestHash :: string
  responseHash :: string
  emitter :: Bytes

record ApiCallProvedEvent =
  transaction :: Transaction
  block :: Block
  params :: Params
  logIndex :: BigInt

section \<open>Entities and the store\<close>

text \<open>
  Modelled from the spec: the entity classes \<^verbatim>\<open>ApiCallProved\<close> and \<^verbatim>\<open>ApiCall\<close> of
  \<^verbatim>\<open>generated/schema\<close> and the store they are saved to are not among the sources.
  An entity is its identifier together with its named fields; the store is a finite
  table keyed by entity type and identifier; \<open>save\<close> is what the specification's upsert
  records when the store can be reached (it creates the entry, or overwrites the one
  already there; the write that can fail is \<open>upsert\<close> further down), \<open>store_get\<close> is its
  point lookup and \<open>entityCount\<close> its count.
\<close>

record Entity =
  entityId :: Value
  entityFields :: "string \<rightharpoonup> Value"

type_synonym Store = "(string \<times> Value, Entity) fmap"

definition newEntity :: "Value \<Rightarrow> Entity" where
  "newEntity i = \<lparr>entityId = i, entityFields = Map.empty\<rparr>"

definition setField :: "Entity \<Rightarrow> string \<Rightarrow> Value \<Rightarrow> Entity" where
  "setField entity name v = entity\<lparr>entityFields := (entityFields entity)(name \<mapsto> v)\<rparr>"

definition save :: "string \<Rightarrow> Entity \<Rightarrow> Store \<Rightarrow> Store" where
  "save entityType entity s = fmupd (entityType, entityId entity) entity s"

definition store_get :: "Store \<Rightarrow> string \<Rightarrow> Value \<Rightarrow> Entity option" where
  "store_get s entityType i = fmlookup s (entityType, i)"

definition entityCount :: "Store \<Rightarrow> nat" where
  "entityCount s = fcard (fmdom s)"

text \<open>\<^verbatim>\<open>clearStore()\<close> of the test framework: the full reset.\<close>

definition clearStore :: "Store \<Rightarrow> Store" where
  "clearStore s = fmempty"

section \<open>The handler saving an \<^verbatim>\<open>ApiCallProved\<close> entity\<close>

text \<open>
  The argument of the entity constructor (lines 5 to 7 of the handler):
  \<^verbatim>\<open>event.transaction.hash.concatI32(event.logIndex.toI32())\<close>.
\<close>

definition apiCallProvedId :: "ApiCallProvedEvent \<Rightarrow> error + Bytes" where
  "apiCallProvedId event =
     (case toI32 (logIndex event) of
        Inl err \<Rightarrow> Inl err
      | Inr i \<Rightarrow> Inr (concatI32 (hash (transaction event)) i))"

text \<open>
  \<^verbatim>\<open>handleApiCallProved\<close> on a decoded event and a store that can be reached: the entity
  is built in local memory, field by field, and written
  by the single \<^verbatim>\<open>entity.save()\<close> that ends the handler. The result pairs the outcome
  (an abort, or the handler's \<^verbatim>\<open>void\<close>) with the store the call leaves behind; an abort
  happens before anything is written.
\<close>

definition handleApiCallProved ::
  "ApiCallProvedEvent \<Rightarrow> Store \<Rightarrow> (error + unit) \<times> Store" where
  "handleApiCallProved event s =
     (case apiCallProvedId event of
        Inl err \<Rightarrow> (Inl err, s)
      | Inr i \<Rightarrow>
          (let entity = newEntity (VBytes i);
               entity = setField entity ''callId'' (VString (callId (params event)));
               entity = setField entity ''requestHash'' (VString (requestHash (params event)));
               entity = setField entity ''responseHash'' (VString (responseHash (params event)));
               entity = setField entity ''emitter'' (VBytes (emitter (params event)));
               entity = setField entity ''blockNumber'' (VBigInt (number (block event)));
               entity = setField entity ''blockTimestamp'' (VBigInt (timestamp (block event)));
               entity = setField entity ''transactionHash'' (VBytes (hash (transaction event)))
           in (Inr (), save ''ApiCallProved'' entity s)))"

text \<open>
  A sequence of invocations, one per delivered event, each on the store the previous one
  left; an invocation that aborts leaves the store as it found it.
\<close>

definition processAll :: "ApiCallProvedEvent list \<Rightarrow> Store \<Rightarrow> Store" where
  "processAll events s = foldl (\<lambda>st event. snd (handleApiCallProved event st)) s events"

section \<open>The handler saving an \<^verbatim>\<open>ApiCall\<close> entity\<close>

text \<open>
  Line 5 of \<^verbatim>\<open>subgraph/src/mapping.ts\<close>:
  \<^verbatim>\<open>event.transaction.hash.toHex() + ":" + event.logIndex.toString()\<close>.
\<close>

definition apiCallId :: "ApiCallProvedEvent \<Rightarrow> string" where
  "apiCallId event = toHex (hash (transaction event)) @ '':'' @ bigIntToString (logIndex event)"

definition mapping_handleApiCallProved ::
  "ApiCallProvedEvent \<Rightarrow> Store \<Rightarrow> (error + unit) \<times> Store" where
  "mapping_handleApiCallProved event s =
     (let i = apiCallId event;
          entity = newEntity (VString i);
          entity = setField entity ''callId'' (VString (callId (params event)));
          entity = setField entity ''requestHash'' (VString (requestHash (params event)));
          entity = setField entity ''responseHash'' (VString (responseHash (params event)));
          entity = setField entity ''emitter'' (VBytes (emitter (params event)));
          entity = setField entity ''txHash'' (VBytes (hash (transaction event)));
          entity = setField entity ''blockNumber'' (VBigInt (number (block event)));
          entity = setField entity ''timestamp'' (VBigInt (timestamp (block event)))
      in (Inr (), save ''ApiCall'' entity s))"

section \<open>The event as the runtime delivers it\<close>

text \<open>
  Modelled from the spec: the generated event class of \<^verbatim>\<open>generated/ApiCallsRegistry\<close> is not
  among the sources. The specification describes the original as reading named parameters
  off a generic event object, and the fixture \<^verbatim>\<open>createApiCallProvedEvent\<close> shows that object:
  the event carries \<^verbatim>\<open>parameters\<close>, an array of \<^verbatim>\<open>EventParam\<close>, each a name with a tagged
  value (\<^verbatim>\<open>Value.fromString\<close> for the three strings, \<^verbatim>\<open>Value.fromAddress\<close> for the emitter),
  pushed in the order \<^verbatim>\<open>callId\<close>, \<^verbatim>\<open>requestHash\<close>, \<^verbatim>\<open>responseHash\<close>, \<^verbatim>\<open>emitter\<close>.
  The transaction, the block and the log index are typed fields of the event and cannot be
  absent; they are \<^verbatim>\<open>event.transaction\<close>, \<^verbatim>\<open>event.block\<close> and \<^verbatim>\<open>event.logIndex\<close>.
\<close>

datatype EthereumValue =
  AddressValue Bytes | BytesValue Bytes | IntValue BigInt | BoolValue bool | StringValue string

datatype EventParam = EventParam (paramName: string) (paramValue: EthereumValue)

record EthereumEvent =
  eventTransaction :: Transaction
  eventBlock :: Block
  eventLogIndex :: BigInt
  parameters :: "EventParam list"

text \<open>
  Modelled from the spec: a getter \<^verbatim>\<open>event.params.x\<close> reads the parameter at its position and
  converts the value by its kind. Reading past the end of the array aborts, and so does
  the conversion of a value of another kind; this is the failure the specification calls
  \<^verbatim>\<open>MalformedEvent\<close>. The bytes of an address are taken as they are: no width is checked.
\<close>

definition parameterAt :: "EthereumEvent \<Rightarrow> nat \<Rightarrow> error + EthereumValue" where
  "parameterAt event k =
     (if k < length (parameters event) then Inr (paramValue (parameters event ! k))
      else Inl MalformedEvent)"

definition valueToString :: "EthereumValue \<Rightarrow> error + string" where
  "valueToString v = (case v of StringValue s \<Rightarrow> Inr s | _ \<Rightarrow> Inl MalformedEvent)"

definition valueToAddress :: "EthereumValue \<Rightarrow> error + Bytes" where
  "valueToAddress v = (case v of AddressValue a \<Rightarrow> Inr a | _ \<Rightarrow> Inl MalformedEvent)"

definition params_callId :: "EthereumEvent \<Rightarrow> error + string" where
  "params_callId event =
     (case parameterAt event 0 of Inl err \<Rightarrow> Inl err | Inr v \<Rightarrow> valueToString v)"

definition params_requestHash :: "EthereumEvent \<Rightarrow> error + string" where
  "params_requestHash event =
     (case parameterAt event 1 of Inl err \<Rightarrow> Inl err | Inr v \<Rightarrow> valueToString v)"

definition params_responseHash :: "EthereumEvent \<Rightarrow> error + string" where
  "params_responseHash event =
     (case parameterAt event 2 of Inl err \<Rightarrow> Inl err | Inr v \<Rightarrow> valueToString v)"

definition params_emitter :: "EthereumEvent \<Rightarrow> error + Bytes" where
  "params_emitter event =
     (case parameterAt event 3 of Inl err \<Rightarrow> Inl err | Inr v \<Rightarrow> valueToAddress v)"

section \<open>The store that may be out of reach\<close>

text \<open>
  Modelled from the spec: the write of the store either records the whole entity, as
  \<open>save\<close> does, or raises \<^verbatim>\<open>StoreUnavailable\<close> because the persistence medium cannot be
  reached, and then records nothing. Whether the medium can be reached is the
  environment's: it is the first argument.
\<close>

definition upsert :: "bool \<Rightarrow> string \<Rightarrow> Entity \<Rightarrow> Store \<Rightarrow> error + Store" where
  "upsert reachable entityType entity s =
     (if reachable then Inr (save entityType entity s) else Inl StoreUnavailable)"

section \<open>One invocation of a handler by the runtime\<close>

text \<open>
  \<^verbatim>\<open>handleApiCallProved\<close> of the first handler, statement by statement, on the event as
  delivered and with the store reachable or not: the constructor argument (with the abort
  of \<^verbatim>\<open>toI32\<close>), then each getter followed by its assignment, then the block and
  transaction fields, then the one \<^verbatim>\<open>entity.save()\<close>. Every abort returns the store the
  invocation found. On a decoded event and a reachable store this is
  \<open>handleApiCallProved\<close> above (lemma \<open>invoke_handleApiCallProved_decoded\<close>).
\<close>

definition invoke_handleApiCallProved ::
  "bool \<Rightarrow> EthereumEvent \<Rightarrow> Store \<Rightarrow> (error + unit) \<times> Store" where
  "invoke_handleApiCallProved reachable event s =
     (case toI32 (eventLogIndex event) of
        Inl err \<Rightarrow> (Inl err, s)
      | Inr n \<Rightarrow>
     (let entity = newEntity (VBytes (concatI32 (hash (eventTransaction event)) n)) in
      case params_callId event of
        Inl err \<Rightarrow> (Inl err, s)
      | Inr c \<Rightarrow>
     (let entity = setField entity ''callId'' (VString c) in
      case params_requestHash event of
        Inl err \<Rightarrow> (Inl err, s)
      | Inr rq \<Rightarrow>
     (let entity = setField entity ''requestHash'' (VString rq) in
      case params_responseHash event of
        Inl err \<Rightarrow> (Inl err, s)
      | Inr rs \<Rightarrow>
     (let entity = setField entity ''responseHash'' (VString rs) in
      case params_emitter event of
        Inl err \<Rightarrow> (Inl err, s)
      | Inr em \<Rightarrow>
     (let entity = setField entity ''emitter'' (VBytes em);
          entity = setField entity ''blockNumber'' (VBigInt (number (eventBlock event)));
          entity = setField entity ''blockTimestamp''
                     (VBigInt (timestamp (eventBlock event)));
          entity = setField entity ''transactionHash''
                     (VBytes (hash (eventTransaction event)))
      in case upsert reachable ''ApiCallProved'' entity s of
           Inl err \<Rightarrow> (Inl err, s)
         | Inr s' \<Rightarrow> (Inr (), s')))))))"

text \<open>The same for \<^verbatim>\<open>handleApiCallProved\<close> of \<^verbatim>\<open>subgraph/src/mapping.ts\<close>.\<close>

definition invoke_mapping_handleApiCallProved ::
  "bool \<Rightarrow> EthereumEvent \<Rightarrow> Store \<Rightarrow> (error + unit) \<times> Store" where
  "invoke_mapping_handleApiCallProved reachable event s =
     (let i = toHex (hash (eventTransaction event)) @ '':''
                @ bigIntToString (eventLogIndex event);
          entity = newEntity (VString i) in
      case params_callId event of
        Inl err \<Rightarrow> (Inl err, s)
      | Inr c \<Rightarrow>
     (let entity = setField entity ''callId'' (VString c) in
      case params_requestHash event of
        Inl err \<Rightarrow> (Inl err, s)
      | Inr rq \<Rightarrow>
     (let entity = setField entity ''requestHash'' (VString rq) in
      case params_responseHash event of
        Inl err \<Rightarrow> (Inl err, s)
      | Inr rs \<Rightarrow>
     (let entity = setField entity ''responseHash'' (VString rs) in
      case params_emitter event of
        Inl err \<Rightarrow> (Inl err, s)
      | Inr em \<Rightarrow>
     (let entity = setField entity ''emitter'' (VBytes em);
          entity = setField entity ''txHash'' (VBytes (hash (eventTransaction event)));
          entity = setField entity ''blockNumber'' (VBigInt (number (eventBlock event)));
          entity = setField entity ''timestamp'' (VBigInt (timestamp (eventBlock event)))
      in case upsert reachable ''ApiCall'' entity s of
           Inl err \<Rightarrow> (Inl err, s)
         | Inr s' \<Rightarrow> (Inr (), s'))))))"

text \<open>
  The four getters together, in the order the handlers call them, and the decoded event
  they give: the event the two functions \<open>handleApiCallProved\<close> and
  \<open>mapping_handleApiCallProved\<close> above take.
\<close>

definition paramsOf :: "EthereumEvent \<Rightarrow> error + Params" where
  "paramsOf event =
     (case params_callId event of
        Inl err \<Rightarrow> Inl err
      | Inr c \<Rightarrow>
     (case params_requestHash event of
        Inl err \<Rightarrow> Inl err
      | Inr rq \<Rightarrow>
     (case params_responseHash event of
        Inl err \<Rightarrow> Inl err
      | Inr rs \<Rightarrow>
     (case params_emitter event of
        Inl err \<Rightarrow> Inl err
      | Inr em \<Rightarrow>
          Inr \<lparr>callId = c, requestHash = rq, responseHash = rs, emitter = em\<rparr>))))"

definition decoded :: "EthereumEvent \<Rightarrow> Params \<Rightarrow> ApiCallProvedEvent" where
  "decoded event p =
     \<lparr>transaction = eventTransaction event, block = eventBlock event, params = p,
      logIndex = eventLogIndex event\<rparr>"

text \<open>
  What the getters ask of the parameters, in one predicate: the four parameters are there,
  the first three are strings and the fourth is an address.
\<close>

definition isStringValue :: "EthereumValue \<Rightarrow> bool" where
  "isStringValue v = (case v of StringValue s \<Rightarrow> True | _ \<Rightarrow> False)"

definition isAddressValue :: "EthereumValue \<Rightarrow> bool" where
  "isAddressValue v = (case v of AddressValue a \<Rightarrow> True | _ \<Rightarrow> False)"

definition parametersWellFormed :: "EthereumEvent \<Rightarrow> bool" where
  "parametersWellFormed event \<longleftrightarrow>
     4 \<le> length (parameters event)
     \<and> isStringValue (paramValue (parameters event ! 0))
     \<and> isStringValue (paramValue (parameters event ! 1))
     \<and> isStringValue (paramValue (parameters event ! 2))
     \<and> isAddressValue (paramValue (parameters event ! 3))"

section \<open>What the handlers have built when they reach \<^verbatim>\<open>save\<close>\<close>

text \<open>
  The entity value each handler holds at its \<^verbatim>\<open>entity.save()\<close>, written out; the lemmas
  \<open>handleApiCallProved_Inr\<close> and \<open>mapping_handleApiCallProved_eq\<close> below derive them from
  the handlers.
\<close>

definition apiCallProvedEntity :: "ApiCallProvedEvent \<Rightarrow> Bytes \<Rightarrow> Entity" where
  "apiCallProvedEntity event i =
     \<lparr>entityId = VBytes i,
      entityFields =
        [''callId'' \<mapsto> VString (callId (params event)),
         ''requestHash'' \<mapsto> VString (requestHash (params event)),
         ''responseHash'' \<mapsto> VString (responseHash (params event)),
         ''emitter'' \<mapsto> VBytes (emitter (params event)),
         ''blockNumber'' \<mapsto> VBigInt (number (block event)),
         ''blockTimestamp'' \<mapsto> VBigInt (timestamp (block event)),
         ''transactionHash'' \<mapsto> VBytes (hash (transaction event))]\<rparr>"

definition apiCallEntity :: "ApiCallProvedEvent \<Rightarrow> Entity" where
  "apiCallEntity event =
     \<lparr>entityId = VString (apiCallId event),
      entityFields =
        [''callId'' \<mapsto> VString (callId (params event)),
         ''requestHash'' \<mapsto> VString (requestHash (params event)),
         ''responseHash'' \<mapsto> VString (responseHash (params event)),
         ''emitter'' \<mapsto> VBytes (emitter (params event)),
         ''txHash'' \<mapsto> VBytes (hash (transaction event)),
         ''blockNumber'' \<mapsto> VBigInt (number (block event)),
         ''timestamp'' \<mapsto> VBigInt (timestamp (block event))]\<rparr>"

text \<open>
  The store key of the \<^verbatim>\<open>ApiCallProved\<close> entity of an event whose log index passes
  \<^verbatim>\<open>toI32\<close>: the entity type and the transaction hash followed by the four bytes of the
  log index.
\<close>

definition apiCallProvedKey :: "ApiCallProvedEvent \<Rightarrow> string \<times> Value" where
  "apiCallProvedKey event =
     (''ApiCallProved'',
      VBytes (concatI32 (hash (transaction event)) (word_of_int (logIndex event))))"

section \<open>Concrete events used in the examples\<close>

text \<open>
  The example scenario of the specification: log 0 of a transaction, block 100,
  timestamp 1700000000, emitter \<^verbatim>\<open>0x00...01\<close>; a second event that shares the
  transaction and the log index and differs in every other field; and the second log of
  the same transaction.
\<close>

definition exampleHash :: Bytes where
  "exampleHash = replicate 31 0xaa @ [0x01]"

definition exampleEvent :: ApiCallProvedEvent where
  "exampleEvent =
     \<lparr>transaction = \<lparr>hash = exampleHash\<rparr>,
      block = \<lparr>number = 100, timestamp = 1700000000\<rparr>,
      params = \<lparr>callId = ''call-1'', requestHash = ''req-1'', responseHash = ''res-1'',
                emitter = replicate 19 0 @ [1]\<rparr>,
      logIndex = 0\<rparr>"

definition otherFieldsEvent :: ApiCallProvedEvent where
  "otherFieldsEvent =
     \<lparr>transaction = \<lparr>hash = exampleHash\<rparr>,
      block = \<lparr>number = 101, timestamp = 1700000012\<rparr>,
      params = \<lparr>callId = ''call-2'', requestHash = ''req-2'', responseHash = ''res-2'',
                emitter = replicate 19 0 @ [2]\<rparr>,
      logIndex = 0\<rparr>"

definition secondLogEvent :: ApiCallProvedEvent where
  "secondLogEvent = exampleEvent\<lparr>logIndex := 1\<rparr>"

text \<open>
  Events as delivered. The first is the example scenario with its four parameters as the
  fixture builds them. The others differ from it in one place: the emitter parameter is
  absent; the emitter parameter is a string; the transaction hash is an empty byte array,
  which is not the width of a hash; the log index does not fit 32 bits.
\<close>

definition deliveredEvent :: EthereumEvent where
  "deliveredEvent =
     \<lparr>eventTransaction = \<lparr>hash = exampleHash\<rparr>,
      eventBlock = \<lparr>number = 100, timestamp = 1700000000\<rparr>,
      eventLogIndex = 0,
      parameters =
        [EventParam ''callId'' (StringValue ''call-1''),
         EventParam ''requestHash'' (StringValue ''req-1''),
         EventParam ''responseHash'' (StringValue ''res-1''),
         EventParam ''emitter'' (AddressValue (replicate 19 0 @ [1]))]\<rparr>"

definition absentEmitterEvent :: EthereumEvent where
  "absentEmitterEvent = deliveredEvent\<lparr>parameters := take 3 (parameters deliveredEvent)\<rparr>"

definition wrongKindEmitterEvent :: EthereumEvent where
  "wrongKindEmitterEvent =
     deliveredEvent\<lparr>parameters :=
       take 3 (parameters deliveredEvent) @ [EventParam ''emitter'' (StringValue ''0x01'')]\<rparr>"

definition wrongWidthHashEvent :: EthereumEvent where
  "wrongWidthHashEvent = deliveredEvent\<lparr>eventTransaction := \<lparr>hash = []\<rparr>\<rparr>"

definition hugeIndexDelivery :: EthereumEvent where
  "hugeIndexDelivery = deliveredEvent\<lparr>eventLogIndex := 2 ^ 32\<rparr>"

section \<open>The byte encoding of the log index\<close>

lemma ucast_signed_drop_bit:
  "n \<le> 24 \<Longrightarrow> (ucast (signed_drop_bit n (x::i32)) :: 8 word) = ucast (drop_bit n x)"
  by (rule bit_eqI) (auto simp add: bit_simps)

lemma fromI32_drop_bit:
  "fromI32 x = [ucast x, ucast (drop_bit 8 x), ucast (drop_bit 16 x), ucast (drop_bit 24 x)]"
  by (simp add: fromI32_def ucast_signed_drop_bit)

lemma length_fromI32: "length (fromI32 x) = 4"
  by (simp add: fromI32_def)

lemma fromI32_rev_bigEndian: "fromI32 x = rev (bigEndianI32 x)"
  by (simp add: fromI32_drop_bit bigEndianI32_def)

lemma fromI32_inj:
  assumes eq: "fromI32 x = fromI32 y"
  shows "x = y"
proof (rule bit_eqI)
  fix k
  assume "possible_bit TYPE(i32) k"
  then have k: "k < 32" by simp
  have b0: "(ucast x :: 8 word) = ucast y"
    and b1: "(ucast (drop_bit 8 x) :: 8 word) = ucast (drop_bit 8 y)"
    and b2: "(ucast (drop_bit 16 x) :: 8 word) = ucast (drop_bit 16 y)"
    and b3: "(ucast (drop_bit 24 x) :: 8 word) = ucast (drop_bit 24 y)"
    using eq by (simp_all add: fromI32_drop_bit)
  consider "k < 8" | "8 \<le> k" "k < 16" | "16 \<le> k" "k < 24" | "24 \<le> k" "k < 32"
    using k by linarith
  then show "bit x k = bit y k"
  proof cases
    case 1
    have "bit (ucast x :: 8 word) k = bit (ucast y :: 8 word) k"
      using b0 by simp
    with 1 show ?thesis by (simp add: bit_simps)
  next
    case 2
    have "bit (ucast (drop_bit 8 x) :: 8 word) (k - 8)
        = bit (ucast (drop_bit 8 y) :: 8 word) (k - 8)"
      using b1 by simp
    with 2 show ?thesis by (auto simp add: bit_simps)
  next
    case 3
    have "bit (ucast (drop_bit 16 x) :: 8 word) (k - 16)
        = bit (ucast (drop_bit 16 y) :: 8 word) (k - 16)"
      using b2 by simp
    with 3 show ?thesis by (auto simp add: bit_simps)
  next
    case 4
    have "bit (ucast (drop_bit 24 x) :: 8 word) (k - 24)
        = bit (ucast (drop_bit 24 y) :: 8 word) (k - 24)"
      using b3 by simp
    with 4 show ?thesis by (auto simp add: bit_simps)
  qed
qed

lemma concatI32_inj:
  assumes "concatI32 bs x = concatI32 cs y"
  shows "bs = cs \<and> x = y"
proof -
  from assms have "bs @ fromI32 x = cs @ fromI32 y"
    by (simp add: concatI32_def)
  then have "bs = cs \<and> fromI32 x = fromI32 y"
    by (simp add: length_fromI32)
  then show ?thesis
    using fromI32_inj by blast
qed

lemma toI32_in_range:
  "0 \<le> n \<Longrightarrow> n < 2 ^ 31 \<Longrightarrow> toI32 n = Inr (word_of_int n)"
  by (simp add: toI32_def)

lemma toI32_too_large: "2 ^ 32 \<le> n \<Longrightarrow> toI32 n = Inl Overflow"
  by (simp add: toI32_def)

lemma word_of_int_inj_i32:
  assumes "0 \<le> m" "m < 2 ^ 31" "0 \<le> n" "n < 2 ^ 31"
    and eq: "(word_of_int m :: i32) = word_of_int n"
  shows "m = n"
proof -
  have "take_bit 32 m = take_bit 32 n"
    using eq by (simp add: word_of_int_eq_iff)
  moreover have "take_bit 32 m = m" "take_bit 32 n = n"
    using assms by (simp_all add: take_bit_int_eq_self)
  ultimately show ?thesis by simp
qed

lemma ucast_drop_bit_word_of_int:
  assumes "0 \<le> n" "n < 2 ^ 31" "k \<le> 24"
  shows "(ucast (drop_bit k (word_of_int n :: i32)) :: 8 word) = word_of_int (n div 2 ^ k)"
proof (rule bit_eqI)
  fix j
  assume "possible_bit TYPE(8 word) j"
  then show "bit (ucast (drop_bit k (word_of_int n :: i32)) :: 8 word) j
      = bit (word_of_int (n div 2 ^ k) :: 8 word) j"
    using assms by (auto simp add: bit_simps simp flip: drop_bit_eq_div)
qed

lemma fromI32_digits:
  assumes "0 \<le> n" "n < 2 ^ 31"
  shows "fromI32 (word_of_int n)
     = [word_of_int n, word_of_int (n div 2 ^ 8), word_of_int (n div 2 ^ 16),
        word_of_int (n div 2 ^ 24)]"
  using ucast_drop_bit_word_of_int [OF assms, of 0] ucast_drop_bit_word_of_int [OF assms, of 8]
    ucast_drop_bit_word_of_int [OF assms, of 16] ucast_drop_bit_word_of_int [OF assms, of 24]
  by (simp add: fromI32_drop_bit)

lemma decode_digits:
  fixes n :: int
  shows "n mod 256 + 256 * (n div 256 mod 256) + 65536 * (n div 65536 mod 256)
     + 16777216 * (n div 16777216) = n"
proof -
  have a: "n div 65536 = n div 256 div 256" and b: "n div 16777216 = n div 256 div 256 div 256"
    by (simp_all add: zdiv_zmult2_eq [symmetric])
  have "n = n mod 256 + 256 * (n div 256)" by simp
  moreover have "n div 256 = n div 256 mod 256 + 256 * (n div 256 div 256)" by simp
  moreover have "n div 256 div 256 = n div 256 div 256 mod 256 + 256 * (n div 256 div 256 div 256)"
    by simp
  ultimately show ?thesis unfolding a b by linarith
qed

lemma fromI32_decode:
  assumes "0 \<le> n" "n < 2 ^ 31"
  shows "uint (fromI32 (word_of_int n) ! 0) + 2 ^ 8 * uint (fromI32 (word_of_int n) ! 1)
     + 2 ^ 16 * uint (fromI32 (word_of_int n) ! 2)
     + 2 ^ 24 * uint (fromI32 (word_of_int n) ! 3) = n"
proof -
  have u: "uint (word_of_int m :: 8 word) = m mod 256" for m
    by (simp add: uint_word_of_int take_bit_eq_mod)
  have b0: "uint (fromI32 (word_of_int n) ! 0) = n mod 256"
    and b1: "uint (fromI32 (word_of_int n) ! 1) = n div 256 mod 256"
    and b2: "uint (fromI32 (word_of_int n) ! 2) = n div 65536 mod 256"
    and b3: "uint (fromI32 (word_of_int n) ! 3) = n div 16777216 mod 256"
    by (simp_all add: fromI32_digits [OF assms] u)
  have top: "n div 16777216 mod 256 = n div 16777216"
    using assms by simp
  have "n mod 256 + 2 ^ 8 * (n div 256 mod 256) + 2 ^ 16 * (n div 65536 mod 256)
      + 2 ^ 24 * (n div 16777216) = n"
    using decode_digits [of n] by simp
  then show ?thesis
    by (simp only: b0 b1 b2 b3 top)
qed

section \<open>What one invocation does\<close>

lemma apiCallProvedId_in_range:
  assumes "0 \<le> logIndex e" "logIndex e < 2 ^ 31"
  shows "apiCallProvedId e = Inr (hash (transaction e) @ fromI32 (word_of_int (logIndex e)))"
  using assms by (simp add: apiCallProvedId_def toI32_in_range concatI32_def)

lemma apiCallProvedId_Inr:
  "apiCallProvedId e = Inr i \<Longrightarrow>
   i = concatI32 (hash (transaction e)) (word_of_int (logIndex e))"
  by (simp add: apiCallProvedId_def toI32_def split: if_splits)

lemma handleApiCallProved_Inl:
  "apiCallProvedId e = Inl err \<Longrightarrow> handleApiCallProved e s = (Inl err, s)"
  by (simp add: handleApiCallProved_def)

lemma handleApiCallProved_Inr:
  "apiCallProvedId e = Inr i \<Longrightarrow>
   handleApiCallProved e s =
     (Inr (), fmupd (''ApiCallProved'', VBytes i) (apiCallProvedEntity e i) s)"
  by (simp add: handleApiCallProved_def apiCallProvedEntity_def newEntity_def setField_def
      save_def)

lemma handleApiCallProved_in_range:
  assumes "0 \<le> logIndex e" "logIndex e < 2 ^ 31"
  shows "handleApiCallProved e s =
     (Inr (), fmupd (apiCallProvedKey e)
        (apiCallProvedEntity e
           (concatI32 (hash (transaction e)) (word_of_int (logIndex e)))) s)"
  using assms
  by (simp add: handleApiCallProved_Inr apiCallProvedId_in_range apiCallProvedKey_def
      concatI32_def)

lemma snd_handleApiCallProved_in_range:
  assumes "0 \<le> logIndex e \<and> logIndex e < 2 ^ 31"
  shows "snd (handleApiCallProved e s)
     = fmupd (apiCallProvedKey e)
         (apiCallProvedEntity e
            (concatI32 (hash (transaction e)) (word_of_int (logIndex e)))) s"
  using assms by (simp add: handleApiCallProved_in_range)

lemma apiCallProvedId_inj:
  assumes r1: "0 \<le> logIndex e1" "logIndex e1 < 2 ^ 31"
    and r2: "0 \<le> logIndex e2" "logIndex e2 < 2 ^ 31"
    and eq: "apiCallProvedId e1 = apiCallProvedId e2"
  shows "hash (transaction e1) = hash (transaction e2) \<and> logIndex e1 = logIndex e2"
proof -
  have "concatI32 (hash (transaction e1)) (word_of_int (logIndex e1))
      = concatI32 (hash (transaction e2)) (word_of_int (logIndex e2))"
    using eq r1 r2 by (simp add: apiCallProvedId_in_range concatI32_def)
  then have "hash (transaction e1) = hash (transaction e2)"
    and w: "(word_of_int (logIndex e1) :: i32) = word_of_int (logIndex e2)"
    using concatI32_inj by blast+
  moreover have "logIndex e1 = logIndex e2"
    using word_of_int_inj_i32 [OF r1 r2 w] .
  ultimately show ?thesis by simp
qed

lemma apiCallProvedKey_inj:
  assumes r1: "0 \<le> logIndex e1 \<and> logIndex e1 < 2 ^ 31"
    and r2: "0 \<le> logIndex e2 \<and> logIndex e2 < 2 ^ 31"
    and eq: "apiCallProvedKey e1 = apiCallProvedKey e2"
  shows "hash (transaction e1) = hash (transaction e2) \<and> logIndex e1 = logIndex e2"
proof -
  have "concatI32 (hash (transaction e1)) (word_of_int (logIndex e1))
      = concatI32 (hash (transaction e2)) (word_of_int (logIndex e2))"
    using eq by (simp add: apiCallProvedKey_def)
  then have h: "hash (transaction e1) = hash (transaction e2)"
    and w: "(word_of_int (logIndex e1) :: i32) = word_of_int (logIndex e2)"
    using concatI32_inj by blast+
  have "logIndex e1 = logIndex e2"
    using word_of_int_inj_i32 [of "logIndex e1" "logIndex e2"] r1 r2 w by blast
  with h show ?thesis by simp
qed

lemma dom_apiCallProvedEntity:
  "dom (entityFields (apiCallProvedEntity e i))
     = {''callId'', ''requestHash'', ''responseHash'', ''emitter'', ''blockNumber'',
        ''blockTimestamp'', ''transactionHash''}"
  by (simp add: apiCallProvedEntity_def insert_commute)

lemma entityCount_fmupd:
  "entityCount (fmupd k v s) = (if k |\<in>| fmdom s then entityCount s else entityCount s + 1)"
  by (simp add: entityCount_def fcard_finsert_if)

lemma entityCount_fmempty: "entityCount fmempty = 0"
  by (simp add: entityCount_def)

lemma exampleEvent_id: "apiCallProvedId exampleEvent = Inr (exampleHash @ [0, 0, 0, 0])"
  by (simp add: apiCallProvedId_def exampleEvent_def toI32_def concatI32_def fromI32_def)

lemma secondLogEvent_id: "apiCallProvedId secondLogEvent = Inr (exampleHash @ [1, 0, 0, 0])"
  by (simp add: apiCallProvedId_def secondLogEvent_def exampleEvent_def toI32_def
      concatI32_def fromI32_def)

section \<open>The string identifier\<close>

lemma hexDigit_not_colon: "hexDigit n \<noteq> CHR '':''"
proof -
  have "n mod 16 < length ''0123456789abcdef''"
    by simp
  then have "hexDigit n \<in> set ''0123456789abcdef''"
    unfolding hexDigit_def by (rule nth_mem)
  then show ?thesis
    by auto
qed

lemma colon_notin_toHex: "CHR '':'' \<notin> set (toHex bs)"
  using hexDigit_not_colon [symmetric] by (auto simp add: toHex_def byteToHex_def)

lemma colon_in_apiCallId: "CHR '':'' \<in> set (apiCallId e)"
  by (simp add: apiCallId_def)

lemma toHex_neq_apiCallId: "toHex bs \<noteq> apiCallId e"
  using colon_notin_toHex [of bs] colon_in_apiCallId [of e] by metis

lemma hexDigit_inj:
  assumes "m < 16" "n < 16" "hexDigit m = hexDigit n"
  shows "m = n"
proof -
  have "distinct ''0123456789abcdef''" by simp
  moreover have "m < length ''0123456789abcdef''" "n < length ''0123456789abcdef''"
    using assms by simp_all
  ultimately have "(''0123456789abcdef'' ! m = ''0123456789abcdef'' ! n) = (m = n)"
    by (rule nth_eq_iff_index_eq)
  then show ?thesis
    using assms by (simp add: hexDigit_def)
qed

lemma byteToHex_inj:
  assumes "byteToHex a = byteToHex b"
  shows "a = b"
proof -
  have "unat a < 16 * 16" and "unat b < 16 * 16"
    using unsigned_less [of a, where 'a = nat] unsigned_less [of b, where 'a = nat]
    by simp_all
  then have la: "unat a div 16 < 16" and lb: "unat b div 16 < 16"
    by (simp_all only: less_mult_imp_div_less)
  have "hexDigit (unat a div 16) = hexDigit (unat b div 16)"
    and "hexDigit (unat a mod 16) = hexDigit (unat b mod 16)"
    using assms by (simp_all add: byteToHex_def)
  then have "unat a div 16 = unat b div 16" and "unat a mod 16 = unat b mod 16"
    using hexDigit_inj la lb by simp_all
  then have "unat a = unat b"
    by (metis div_mult_mod_eq)
  then show ?thesis
    by (simp only: word_unat_eq_iff)
qed

lemma concat_byteToHex_inj:
  "concat (map byteToHex xs) = concat (map byteToHex ys) \<Longrightarrow> xs = ys"
proof (induction xs arbitrary: ys)
  case Nil
  then show ?case by (cases ys) (simp_all add: byteToHex_def)
next
  case (Cons x xs)
  show ?case
  proof (cases ys)
    case Nil
    with Cons.prems show ?thesis by (simp add: byteToHex_def)
  next
    case (Cons y ys')
    have "byteToHex x @ concat (map byteToHex xs) = byteToHex y @ concat (map byteToHex ys')"
      using Cons.prems Cons by simp
    moreover have "length (byteToHex x) = length (byteToHex y)"
      by (simp add: byteToHex_def)
    ultimately have "byteToHex x = byteToHex y"
      and "concat (map byteToHex xs) = concat (map byteToHex ys')"
      by simp_all
    then show ?thesis
      using Cons.IH byteToHex_inj Cons by simp
  qed
qed

lemma toHex_inj: "toHex xs = toHex ys \<Longrightarrow> xs = ys"
  by (simp add: toHex_def concat_byteToHex_inj)

lemma digitChar_inj:
  assumes "m < 10" "n < 10" "digitChar m = digitChar n"
  shows "m = n"
proof -
  have "distinct ''0123456789''" by simp
  moreover have "m < length ''0123456789''" "n < length ''0123456789''"
    using assms by simp_all
  ultimately have "(''0123456789'' ! m = ''0123456789'' ! n) = (m = n)"
    by (rule nth_eq_iff_index_eq)
  then show ?thesis
    using assms by (simp add: digitChar_def)
qed

lemma digitChar_not_minus: "digitChar n \<noteq> CHR ''-''"
proof -
  have "n mod 10 < length ''0123456789''" by simp
  then have "digitChar n \<in> set ''0123456789''"
    unfolding digitChar_def by (rule nth_mem)
  then show ?thesis by auto
qed

lemma natToString_not_Nil: "natToString n \<noteq> []"
  by (subst natToString.simps) simp

lemma minus_notin_natToString: "CHR ''-'' \<notin> set (natToString n)"
proof (induction n rule: natToString.induct)
  case (1 n)
  show ?case
  proof (cases "n < 10")
    case True
    then show ?thesis
      using digitChar_not_minus [of n] by (subst natToString.simps) auto
  next
    case False
    then show ?thesis
      using 1 digitChar_not_minus [of "n mod 10"] by (subst natToString.simps) auto
  qed
qed

lemma natToString_inj: "natToString m = natToString n \<Longrightarrow> m = n"
proof (induction m arbitrary: n rule: natToString.induct)
  case (1 m)
  show ?case
  proof (cases "m < 10")
    case m: True
    show ?thesis
    proof (cases "n < 10")
      case True
      then have "digitChar m = digitChar n"
        using "1.prems" m by (simp add: natToString.simps)
      then show ?thesis using m True by (rule digitChar_inj [rotated 2])
    next
      case False
      then have "[digitChar m] = natToString (n div 10) @ [digitChar (n mod 10)]"
        using "1.prems" m by (simp add: natToString.simps [of m] natToString.simps [of n])
      then show ?thesis
        using natToString_not_Nil [of "n div 10"] by simp
    qed
  next
    case m: False
    show ?thesis
    proof (cases "n < 10")
      case True
      then have "natToString (m div 10) @ [digitChar (m mod 10)] = [digitChar n]"
        using "1.prems" m by (simp add: natToString.simps [of m] natToString.simps [of n])
      then show ?thesis
        using natToString_not_Nil [of "m div 10"] by simp
    next
      case False
      then have "natToString (m div 10) @ [digitChar (m mod 10)]
          = natToString (n div 10) @ [digitChar (n mod 10)]"
        using "1.prems" m by (simp add: natToString.simps [of m] natToString.simps [of n])
      then have a: "natToString (m div 10) = natToString (n div 10)"
        and b: "digitChar (m mod 10) = digitChar (n mod 10)"
        by simp_all
      have "m div 10 = n div 10"
        using "1.IH" [OF m a] .
      moreover have "m mod 10 = n mod 10"
        using digitChar_inj [OF _ _ b] by simp
      ultimately show ?thesis
        by (metis div_mult_mod_eq)
    qed
  qed
qed

lemma bigIntToString_inj:
  assumes "bigIntToString m = bigIntToString n"
  shows "m = n"
proof -
  have hd_nat: "natToString k \<noteq> CHR ''-'' # cs" for k cs
    using minus_notin_natToString [of k] by auto
  show ?thesis
  proof (cases "m < 0")
    case m: True
    show ?thesis
    proof (cases "n < 0")
      case True
      then have "nat (- m) = nat (- n)"
        using assms m natToString_inj by (simp add: bigIntToString_def)
      then show ?thesis using m True by simp
    next
      case False
      then show ?thesis
        using assms m hd_nat [of "nat n" "natToString (nat (- m))"]
        by (simp add: bigIntToString_def)
    qed
  next
    case m: False
    show ?thesis
    proof (cases "n < 0")
      case True
      then show ?thesis
        using assms m hd_nat [of "nat m" "natToString (nat (- n))"]
        by (simp add: bigIntToString_def)
    next
      case False
      then have "nat m = nat n"
        using assms m natToString_inj by (simp add: bigIntToString_def)
      then show ?thesis using m False by simp
    qed
  qed
qed

lemma split_at_separator:
  assumes "x \<notin> set xs" "x \<notin> set xs'" "xs @ x # ys = xs' @ x # ys'"
  shows "xs = xs' \<and> ys = ys'"
proof -
  have "takeWhile (\<lambda>c. c \<noteq> x) (xs @ x # ys) = xs"
    "takeWhile (\<lambda>c. c \<noteq> x) (xs' @ x # ys') = xs'"
    using assms(1,2) by (auto simp add: takeWhile_tail)
  then have "xs = xs'"
    using assms(3) by simp
  then show ?thesis
    using assms(3) by simp
qed

lemma apiCallId_inj:
  assumes "apiCallId e1 = apiCallId e2"
  shows "hash (transaction e1) = hash (transaction e2) \<and> logIndex e1 = logIndex e2"
proof -
  have "toHex (hash (transaction e1)) @ CHR '':'' # bigIntToString (logIndex e1)
      = toHex (hash (transaction e2)) @ CHR '':'' # bigIntToString (logIndex e2)"
    using assms by (simp add: apiCallId_def)
  then have "toHex (hash (transaction e1)) = toHex (hash (transaction e2))
      \<and> bigIntToString (logIndex e1) = bigIntToString (logIndex e2)"
    using split_at_separator [OF colon_notin_toHex colon_notin_toHex] by blast
  then show ?thesis
    using toHex_inj bigIntToString_inj by blast
qed

lemma exampleEvent_apiCallId:
  "apiCallId exampleEvent
     = ''0xaaaaaaaaaaaaaaaaaaaaaaaaaaaaaaaaaaaaaaaaaaaaaaaaaaaaaaaaaaaaaa01:0''"
  by code_simp

lemma exampleEvent_toHex_id:
  "toHex (exampleHash @ [0, 0, 0, 0])
     = ''0xaaaaaaaaaaaaaaaaaaaaaaaaaaaaaaaaaaaaaaaaaaaaaaaaaaaaaaaaaaaaaa0100000000''"
  by code_simp

section \<open>What one invocation of the other handler does\<close>

lemma mapping_handleApiCallProved_eq:
  "mapping_handleApiCallProved e s =
     (Inr (), fmupd (''ApiCall'', VString (apiCallId e)) (apiCallEntity e) s)"
  by (simp add: mapping_handleApiCallProved_def apiCallEntity_def newEntity_def setField_def
      save_def Let_def)

lemma mapping_handleApiCallProved_total: "fst (mapping_handleApiCallProved e s) = Inr ()"
  by (simp add: mapping_handleApiCallProved_eq)

lemma mapping_handleApiCallProved_again:
  "mapping_handleApiCallProved e (snd (mapping_handleApiCallProved e s))
     = (Inr (), snd (mapping_handleApiCallProved e s))"
  by (simp add: mapping_handleApiCallProved_eq)

lemma mapping_handleApiCallProved_get:
  "store_get (snd (mapping_handleApiCallProved e s)) ''ApiCall'' (VString (apiCallId e))
     = Some (apiCallEntity e)"
  by (simp add: mapping_handleApiCallProved_eq store_get_def)

lemma mapping_handleApiCallProved_other:
  "(entityType, i) \<noteq> (''ApiCall'', VString (apiCallId e)) \<Longrightarrow>
   store_get (snd (mapping_handleApiCallProved e s)) entityType i = store_get s entityType i"
  by (auto simp add: mapping_handleApiCallProved_eq store_get_def)

lemma dom_apiCallEntity:
  "dom (entityFields (apiCallEntity e))
     = {''callId'', ''requestHash'', ''responseHash'', ''emitter'', ''txHash'',
        ''blockNumber'', ''timestamp''}"
  by (simp add: apiCallEntity_def insert_commute)

section \<open>Sequences of invocations\<close>

lemma processAll_Nil: "processAll [] s = s"
  by (simp add: processAll_def)

lemma processAll_snoc:
  "processAll (es @ [e]) s = snd (handleApiCallProved e (processAll es s))"
  by (simp add: processAll_def)

lemma processAll_append: "processAll (xs @ ys) s = processAll ys (processAll xs s)"
  by (simp add: processAll_def)

lemma fmdom_processAll:
  assumes "\<forall>e\<in>set es. 0 \<le> logIndex e \<and> logIndex e < 2 ^ 31"
  shows "fmdom (processAll es s) = fmdom s |\<union>| fset_of_list (map apiCallProvedKey es)"
  using assms
proof (induction es rule: rev_induct)
  case Nil
  show ?case by (simp add: processAll_Nil)
next
  case (snoc e es)
  then have "0 \<le> logIndex e \<and> logIndex e < 2 ^ 31"
    and "fmdom (processAll es s) = fmdom s |\<union>| fset_of_list (map apiCallProvedKey es)"
    by simp_all
  then show ?case
    by (simp add: processAll_snoc snd_handleApiCallProved_in_range)
qed

lemma card_keys_eq_card_pairs:
  assumes "\<forall>e\<in>A. 0 \<le> logIndex e \<and> logIndex e < 2 ^ 31"
  shows "card (apiCallProvedKey ` A) = card ((\<lambda>e. (hash (transaction e), logIndex e)) ` A)"
proof -
  let ?pair = "\<lambda>e. (hash (transaction e), logIndex e)"
  let ?key = "\<lambda>p. (''ApiCallProved'', VBytes (concatI32 (fst p) (word_of_int (snd p))))"
  have img: "apiCallProvedKey ` A = ?key ` (?pair ` A)"
    by (simp add: image_image apiCallProvedKey_def)
  have "inj_on ?key (?pair ` A)"
  proof (rule inj_onI)
    fix p q
    assume "p \<in> ?pair ` A" "q \<in> ?pair ` A" and eq: "?key p = ?key q"
    then obtain e1 e2 where e: "e1 \<in> A" "p = ?pair e1" "e2 \<in> A" "q = ?pair e2"
      by blast
    then have "apiCallProvedKey e1 = apiCallProvedKey e2"
      using eq by (simp add: apiCallProvedKey_def)
    then show "p = q"
      using apiCallProvedKey_inj [of e1 e2] assms e by simp
  qed
  then show ?thesis
    unfolding img by (rule card_image)
qed

lemma entityCount_processAll:
  assumes "\<forall>e\<in>set es. 0 \<le> logIndex e \<and> logIndex e < 2 ^ 31"
  shows "entityCount (processAll es fmempty)
     = card ((\<lambda>e. (hash (transaction e), logIndex e)) ` set es)"
proof -
  have "entityCount (processAll es fmempty) = card (apiCallProvedKey ` set es)"
    by (simp add: entityCount_def fmdom_processAll [OF assms] fcard.rep_eq
        fset_of_list.rep_eq)
  then show ?thesis
    by (simp add: card_keys_eq_card_pairs [OF assms])
qed

lemma processAll_origin:
  assumes "\<forall>e\<in>set es. 0 \<le> logIndex e \<and> logIndex e < 2 ^ 31"
    and "fmlookup (processAll es fmempty) k = Some ent"
  shows "\<exists>e\<in>set es. apiCallProvedKey e = k
    \<and> ent = apiCallProvedEntity e
        (concatI32 (hash (transaction e)) (word_of_int (logIndex e)))"
  using assms
proof (induction es arbitrary: ent rule: rev_induct)
  case Nil
  then show ?case by (simp add: processAll_Nil)
next
  case (snoc e es)
  have r: "0 \<le> logIndex e \<and> logIndex e < 2 ^ 31"
    and rs: "\<forall>e\<in>set es. 0 \<le> logIndex e \<and> logIndex e < 2 ^ 31"
    using snoc.prems(1) by simp_all
  show ?case
  proof (cases "apiCallProvedKey e = k")
    case True
    then have "ent = apiCallProvedEntity e
        (concatI32 (hash (transaction e)) (word_of_int (logIndex e)))"
      using snoc.prems(2) by (simp add: processAll_snoc snd_handleApiCallProved_in_range [OF r])
    with True show ?thesis by simp
  next
    case False
    then have "fmlookup (processAll es fmempty) k = Some ent"
      using snoc.prems(2) by (simp add: processAll_snoc snd_handleApiCallProved_in_range [OF r])
    then show ?thesis
      using snoc.IH [OF rs] by auto
  qed
qed

lemma processAll_keeps:
  assumes r: "\<forall>e\<in>set (xs @ ys). 0 \<le> logIndex e \<and> logIndex e < 2 ^ 31"
    and u: "\<forall>e1\<in>set (xs @ ys). \<forall>e2\<in>set (xs @ ys).
        hash (transaction e1) = hash (transaction e2) \<and> logIndex e1 = logIndex e2
        \<longrightarrow> e1 = e2"
    and l: "fmlookup (processAll xs fmempty) k = Some ent"
  shows "fmlookup (processAll (xs @ ys) fmempty) k = Some ent"
  using r u
proof (induction ys rule: rev_induct)
  case Nil
  show ?case using l by simp
next
  case (snoc y ys)
  have ry: "0 \<le> logIndex y \<and> logIndex y < 2 ^ 31"
    using snoc.prems(1) by simp
  have rx: "\<forall>e\<in>set xs. 0 \<le> logIndex e \<and> logIndex e < 2 ^ 31"
    using snoc.prems(1) by simp
  have ih: "fmlookup (processAll (xs @ ys) fmempty) k = Some ent"
    using snoc.IH snoc.prems by simp
  have step: "processAll (xs @ ys @ [y]) fmempty
      = fmupd (apiCallProvedKey y)
          (apiCallProvedEntity y
             (concatI32 (hash (transaction y)) (word_of_int (logIndex y))))
          (processAll (xs @ ys) fmempty)"
    using processAll_snoc [of "xs @ ys" y fmempty]
    by (simp add: snd_handleApiCallProved_in_range [OF ry])
  show ?case
  proof (cases "apiCallProvedKey y = k")
    case False
    then show ?thesis using ih by (simp add: step)
  next
    case True
    obtain e where e: "e \<in> set xs" "apiCallProvedKey e = k"
      "ent = apiCallProvedEntity e
         (concatI32 (hash (transaction e)) (word_of_int (logIndex e)))"
      using processAll_origin [OF rx l] by blast
    have re: "0 \<le> logIndex e \<and> logIndex e < 2 ^ 31"
      using rx e(1) by simp
    have "hash (transaction e) = hash (transaction y) \<and> logIndex e = logIndex y"
      using apiCallProvedKey_inj [OF re ry] e(2) True by simp
    then have "e = y"
      using snoc.prems(2) e(1) by simp
    then show ?thesis
      using e(3) True by (simp add: step)
  qed
qed

section \<open>What one invocation by the runtime does\<close>

lemma parameterAt_Inr_iff:
  "parameterAt event k = Inr v
     \<longleftrightarrow> k < length (parameters event) \<and> paramValue (parameters event ! k) = v"
  by (auto simp add: parameterAt_def)

lemma valueToString_Inr_iff: "valueToString v = Inr c \<longleftrightarrow> v = StringValue c"
  by (cases v) (simp_all add: valueToString_def)

lemma valueToAddress_Inr_iff: "valueToAddress v = Inr a \<longleftrightarrow> v = AddressValue a"
  by (cases v) (simp_all add: valueToAddress_def)

lemma params_callId_Inr_iff:
  "params_callId event = Inr c
     \<longleftrightarrow> 0 < length (parameters event) \<and> paramValue (parameters event ! 0) = StringValue c"
  by (simp add: params_callId_def parameterAt_def valueToString_Inr_iff)

lemma params_requestHash_Inr_iff:
  "params_requestHash event = Inr c
     \<longleftrightarrow> 1 < length (parameters event) \<and> paramValue (parameters event ! 1) = StringValue c"
  by (simp add: params_requestHash_def parameterAt_def valueToString_Inr_iff)

lemma params_responseHash_Inr_iff:
  "params_responseHash event = Inr c
     \<longleftrightarrow> 2 < length (parameters event) \<and> paramValue (parameters event ! 2) = StringValue c"
  by (simp add: params_responseHash_def parameterAt_def valueToString_Inr_iff)

lemma params_emitter_Inr_iff:
  "params_emitter event = Inr a
     \<longleftrightarrow> 3 < length (parameters event) \<and> paramValue (parameters event ! 3) = AddressValue a"
  by (simp add: params_emitter_def parameterAt_def valueToAddress_Inr_iff)

lemma valueToString_error: "valueToString v = Inl err \<Longrightarrow> err = MalformedEvent"
  by (cases v) (simp_all add: valueToString_def)

lemma valueToAddress_error: "valueToAddress v = Inl err \<Longrightarrow> err = MalformedEvent"
  by (cases v) (simp_all add: valueToAddress_def)

lemma params_callId_error: "params_callId event = Inl err \<Longrightarrow> err = MalformedEvent"
  by (auto simp add: params_callId_def parameterAt_def dest: valueToString_error
      split: if_splits)

lemma params_requestHash_error: "params_requestHash event = Inl err \<Longrightarrow> err = MalformedEvent"
  by (auto simp add: params_requestHash_def parameterAt_def dest: valueToString_error
      split: if_splits)

lemma params_responseHash_error:
  "params_responseHash event = Inl err \<Longrightarrow> err = MalformedEvent"
  by (auto simp add: params_responseHash_def parameterAt_def dest: valueToString_error
      split: if_splits)

lemma params_emitter_error: "params_emitter event = Inl err \<Longrightarrow> err = MalformedEvent"
  by (auto simp add: params_emitter_def parameterAt_def dest: valueToAddress_error
      split: if_splits)

lemma paramsOf_error: "paramsOf event = Inl err \<Longrightarrow> err = MalformedEvent"
  by (auto simp add: paramsOf_def split: sum.splits
      dest: params_callId_error params_requestHash_error params_responseHash_error
        params_emitter_error)

lemma paramsOf_Inr_iff:
  "paramsOf event = Inr p
     \<longleftrightarrow> params_callId event = Inr (callId p) \<and> params_requestHash event = Inr (requestHash p)
       \<and> params_responseHash event = Inr (responseHash p)
       \<and> params_emitter event = Inr (emitter p)"
  by (cases p) (auto simp add: paramsOf_def split: sum.splits)

lemma paramsOf_well_formed_iff:
  "paramsOf event = Inr p
     \<longleftrightarrow> 4 \<le> length (parameters event)
       \<and> paramValue (parameters event ! 0) = StringValue (callId p)
       \<and> paramValue (parameters event ! 1) = StringValue (requestHash p)
       \<and> paramValue (parameters event ! 2) = StringValue (responseHash p)
       \<and> paramValue (parameters event ! 3) = AddressValue (emitter p)"
  by (auto simp add: paramsOf_Inr_iff params_callId_Inr_iff params_requestHash_Inr_iff
      params_responseHash_Inr_iff params_emitter_Inr_iff)

lemma invoke_handleApiCallProved_overflow:
  "toI32 (eventLogIndex event) = Inl err \<Longrightarrow>
   invoke_handleApiCallProved reachable event s = (Inl err, s)"
  by (simp add: invoke_handleApiCallProved_def)

lemma invoke_handleApiCallProved_malformed:
  "toI32 (eventLogIndex event) = Inr n \<Longrightarrow> paramsOf event = Inl err \<Longrightarrow>
   invoke_handleApiCallProved reachable event s = (Inl err, s)"
  by (auto simp add: invoke_handleApiCallProved_def paramsOf_def Let_def split: sum.splits)

lemma invoke_handleApiCallProved_unreachable:
  "toI32 (eventLogIndex event) = Inr n \<Longrightarrow> paramsOf event = Inr p \<Longrightarrow>
   invoke_handleApiCallProved False event s = (Inl StoreUnavailable, s)"
  by (auto simp add: invoke_handleApiCallProved_def paramsOf_def upsert_def Let_def
      split: sum.splits)

lemma invoke_handleApiCallProved_decoded:
  "paramsOf event = Inr p \<Longrightarrow>
   invoke_handleApiCallProved True event s = handleApiCallProved (decoded event p) s"
  by (auto simp add: invoke_handleApiCallProved_def paramsOf_def upsert_def Let_def
      handleApiCallProved_def apiCallProvedId_def decoded_def split: sum.splits)

lemma invoke_mapping_handleApiCallProved_malformed:
  "paramsOf event = Inl err \<Longrightarrow>
   invoke_mapping_handleApiCallProved reachable event s = (Inl err, s)"
  by (auto simp add: invoke_mapping_handleApiCallProved_def paramsOf_def Let_def
      split: sum.splits)

lemma invoke_mapping_handleApiCallProved_unreachable:
  "paramsOf event = Inr p \<Longrightarrow>
   invoke_mapping_handleApiCallProved False event s = (Inl StoreUnavailable, s)"
  by (auto simp add: invoke_mapping_handleApiCallProved_def paramsOf_def upsert_def Let_def
      split: sum.splits)

lemma invoke_mapping_handleApiCallProved_decoded:
  "paramsOf event = Inr p \<Longrightarrow>
   invoke_mapping_handleApiCallProved True event s
     = mapping_handleApiCallProved (decoded event p) s"
  by (auto simp add: invoke_mapping_handleApiCallProved_def paramsOf_def upsert_def Let_def
      mapping_handleApiCallProved_def apiCallId_def decoded_def split: sum.splits)

lemma isStringValue_iff: "isStringValue v \<longleftrightarrow> (\<exists>c. v = StringValue c)"
  by (cases v) (simp_all add: isStringValue_def)

lemma isAddressValue_iff: "isAddressValue v \<longleftrightarrow> (\<exists>a. v = AddressValue a)"
  by (cases v) (simp_all add: isAddressValue_def)

lemma parametersWellFormed_iff: "parametersWellFormed event \<longleftrightarrow> (\<exists>p. paramsOf event = Inr p)"
proof
  assume w: "parametersWellFormed event"
  then obtain c rq rs em where
    "paramValue (parameters event ! 0) = StringValue c"
    "paramValue (parameters event ! 1) = StringValue rq"
    "paramValue (parameters event ! 2) = StringValue rs"
    "paramValue (parameters event ! 3) = AddressValue em"
    unfolding parametersWellFormed_def isStringValue_iff isAddressValue_iff by blast
  moreover have "4 \<le> length (parameters event)"
    using w by (simp add: parametersWellFormed_def)
  ultimately have
    "paramsOf event = Inr \<lparr>callId = c, requestHash = rq, responseHash = rs, emitter = em\<rparr>"
    by (simp add: paramsOf_well_formed_iff)
  then show "\<exists>p. paramsOf event = Inr p" ..
next
  assume "\<exists>p. paramsOf event = Inr p"
  then obtain p where "paramsOf event = Inr p" ..
  then show "parametersWellFormed event"
    by (simp add: paramsOf_well_formed_iff parametersWellFormed_def isStringValue_def
        isAddressValue_def)
qed

lemma paramsOf_malformed:
  assumes "\<not> parametersWellFormed event"
  shows "paramsOf event = Inl MalformedEvent"
proof (cases "paramsOf event")
  case (Inl err)
  then show ?thesis using paramsOf_error [OF Inl] by simp
next
  case (Inr p)
  then show ?thesis using assms parametersWellFormed_iff by blast
qed

lemma toI32_cases:
  "toI32 n = Inl Overflow \<or> toI32 n = Inr (word_of_int n)"
  by (simp add: toI32_def)

lemma decoded_fields:
  "hash (transaction (decoded event p)) = hash (eventTransaction event)"
  "logIndex (decoded event p) = eventLogIndex event"
  "params (decoded event p) = p"
  "block (decoded event p) = eventBlock event"
  by (simp_all add: decoded_def)

lemma paramsOf_deliveredEvent:
  "paramsOf deliveredEvent
     = Inr \<lparr>callId = ''call-1'', requestHash = ''req-1'', responseHash = ''res-1'',
            emitter = replicate 19 0 @ [1]\<rparr>"
  by (simp add: paramsOf_def params_callId_def params_requestHash_def params_responseHash_def
      params_emitter_def parameterAt_def valueToString_def valueToAddress_def
      deliveredEvent_def)

lemma decoded_deliveredEvent:
  "decoded deliveredEvent
     \<lparr>callId = ''call-1'', requestHash = ''req-1'', responseHash = ''res-1'',
      emitter = replicate 19 0 @ [1]\<rparr> = exampleEvent"
  by (simp add: decoded_def deliveredEvent_def exampleEvent_def)

lemma paramsOf_wrongWidthHashEvent:
  "paramsOf wrongWidthHashEvent
     = Inr \<lparr>callId = ''call-1'', requestHash = ''req-1'', responseHash = ''res-1'',
            emitter = replicate 19 0 @ [1]\<rparr>"
  by (simp add: paramsOf_def params_callId_def params_requestHash_def params_responseHash_def
      params_emitter_def parameterAt_def valueToString_def valueToAddress_def
      wrongWidthHashEvent_def deliveredEvent_def)

lemma absentEmitterEvent_malformed: "\<not> parametersWellFormed absentEmitterEvent"
  by (simp add: parametersWellFormed_def absentEmitterEvent_def deliveredEvent_def)

lemma wrongKindEmitterEvent_malformed: "\<not> parametersWellFormed wrongKindEmitterEvent"
  by (simp add: parametersWellFormed_def wrongKindEmitterEvent_def deliveredEvent_def
      isAddressValue_def)

lemma deliveredEvent_well_formed: "parametersWellFormed deliveredEvent"
  using parametersWellFormed_iff paramsOf_deliveredEvent by blast

lemma invoke_handleApiCallProved_outcome:
  "invoke_handleApiCallProved reachable event s =
     (case toI32 (eventLogIndex event) of
        Inl err \<Rightarrow> (Inl err, s)
      | Inr n \<Rightarrow>
          (case paramsOf event of
             Inl err \<Rightarrow> (Inl err, s)
           | Inr p \<Rightarrow>
               if reachable
               then (Inr (),
                 fmupd (''ApiCallProved'', VBytes (concatI32 (hash (eventTransaction event)) n))
                   (apiCallProvedEntity (decoded event p)
                      (concatI32 (hash (eventTransaction event)) n)) s)
               else (Inl StoreUnavailable, s)))"
proof (cases "toI32 (eventLogIndex event)")
  case (Inl err)
  then show ?thesis by (simp add: invoke_handleApiCallProved_overflow)
next
  case n: (Inr n)
  show ?thesis
  proof (cases "paramsOf event")
    case (Inl err)
    then show ?thesis using n by (simp add: invoke_handleApiCallProved_malformed)
  next
    case p: (Inr p)
    show ?thesis
    proof (cases reachable)
      case False
      then show ?thesis using n p by (simp add: invoke_handleApiCallProved_unreachable)
    next
      case True
      have "apiCallProvedId (decoded event p)
          = Inr (concatI32 (hash (eventTransaction event)) n)"
        using n by (simp add: apiCallProvedId_def decoded_fields)
      then have "handleApiCallProved (decoded event p) s
          = (Inr (),
             fmupd (''ApiCallProved'', VBytes (concatI32 (hash (eventTransaction event)) n))
               (apiCallProvedEntity (decoded event p)
                  (concatI32 (hash (eventTransaction event)) n)) s)"
        by (rule handleApiCallProved_Inr)
      then show ?thesis
        using True n p by (simp add: invoke_handleApiCallProved_decoded)
    qed
  qed
qed

lemma invoke_mapping_handleApiCallProved_outcome:
  "invoke_mapping_handleApiCallProved reachable event s =
     (case paramsOf event of
        Inl err \<Rightarrow> (Inl err, s)
      | Inr p \<Rightarrow>
          if reachable
          then (Inr (),
            fmupd (''ApiCall'', VString (apiCallId (decoded event p)))
              (apiCallEntity (decoded event p)) s)
          else (Inl StoreUnavailable, s))"
proof (cases "paramsOf event")
  case (Inl err)
  then show ?thesis by (simp add: invoke_mapping_handleApiCallProved_malformed)
next
  case p: (Inr p)
  show ?thesis
  proof (cases reachable)
    case False
    then show ?thesis using p by (simp add: invoke_mapping_handleApiCallProved_unreachable)
  next
    case True
    then show ?thesis
      using p
      by (simp add: invoke_mapping_handleApiCallProved_decoded mapping_handleApiCallProved_eq)
  qed
qed

lemma invoke_handleApiCallProved_succeeds_iff:
  "fst (invoke_handleApiCallProved reachable event s) = Inr ()
     \<longleftrightarrow> toI32 (eventLogIndex event) \<noteq> Inl Overflow \<and> parametersWellFormed event \<and> reachable"
proof (cases "toI32 (eventLogIndex event)")
  case (Inl err)
  then have "toI32 (eventLogIndex event) = Inl Overflow"
    using toI32_cases [of "eventLogIndex event"] by simp
  then show ?thesis
    by (simp add: invoke_handleApiCallProved_outcome)
next
  case n: (Inr n)
  show ?thesis
  proof (cases "paramsOf event")
    case (Inl err)
    then have "\<not> parametersWellFormed event"
      by (simp add: parametersWellFormed_iff)
    then show ?thesis
      using n Inl by (simp add: invoke_handleApiCallProved_outcome)
  next
    case (Inr p)
    then have "parametersWellFormed event"
      using parametersWellFormed_iff by blast
    then show ?thesis
      using n Inr by (simp add: invoke_handleApiCallProved_outcome)
  qed
qed

lemma invoke_mapping_handleApiCallProved_succeeds_iff:
  "fst (invoke_mapping_handleApiCallProved reachable event s) = Inr ()
     \<longleftrightarrow> parametersWellFormed event \<and> reachable"
proof (cases "paramsOf event")
  case (Inl err)
  then have "\<not> parametersWellFormed event"
    by (simp add: parametersWellFormed_iff)
  then show ?thesis
    using Inl by (simp add: invoke_mapping_handleApiCallProved_outcome)
next
  case (Inr p)
  then have "parametersWellFormed event"
    using parametersWellFormed_iff by blast
  then show ?thesis
    using Inr by (simp add: invoke_mapping_handleApiCallProved_outcome)
qed

lemma invoke_handleApiCallProved_failure:
  assumes "fst (invoke_handleApiCallProved reachable event s) = Inl err"
  shows "snd (invoke_handleApiCallProved reachable event s) = s"
  using assms
  by (simp add: invoke_handleApiCallProved_outcome split: sum.splits if_splits)

lemma invoke_mapping_handleApiCallProved_failure:
  assumes "fst (invoke_mapping_handleApiCallProved reachable event s) = Inl err"
  shows "snd (invoke_mapping_handleApiCallProved reachable event s) = s"
  using assms
  by (simp add: invoke_mapping_handleApiCallProved_outcome split: sum.splits if_splits)

lemma invoke_handleApiCallProved_success:
  assumes "fst (invoke_handleApiCallProved reachable event s) = Inr ()"
  shows "\<exists>i ent. snd (invoke_handleApiCallProved reachable event s)
        = fmupd (''ApiCallProved'', VBytes i) ent s
      \<and> i = hash (eventTransaction event) @ fromI32 (word_of_int (eventLogIndex event))
      \<and> entityId ent = VBytes i
      \<and> dom (entityFields ent)
          = {''callId'', ''requestHash'', ''responseHash'', ''emitter'', ''blockNumber'',
             ''blockTimestamp'', ''transactionHash''}"
proof -
  have ok: "toI32 (eventLogIndex event) \<noteq> Inl Overflow" "parametersWellFormed event" reachable
    using assms by (simp_all add: invoke_handleApiCallProved_succeeds_iff)
  then have n: "toI32 (eventLogIndex event) = Inr (word_of_int (eventLogIndex event))"
    using toI32_cases [of "eventLogIndex event"] by simp
  obtain p where p: "paramsOf event = Inr p"
    using ok(2) parametersWellFormed_iff by blast
  let ?i = "hash (eventTransaction event) @ fromI32 (word_of_int (eventLogIndex event))"
  have "snd (invoke_handleApiCallProved reachable event s)
      = fmupd (''ApiCallProved'', VBytes ?i) (apiCallProvedEntity (decoded event p) ?i) s"
    using ok(3) by (simp add: invoke_handleApiCallProved_outcome n p concatI32_def)
  moreover have "entityId (apiCallProvedEntity (decoded event p) ?i) = VBytes ?i"
    by (simp add: apiCallProvedEntity_def)
  ultimately show ?thesis
    using dom_apiCallProvedEntity [of "decoded event p" ?i] by blast
qed

lemma invoke_mapping_handleApiCallProved_success:
  assumes "fst (invoke_mapping_handleApiCallProved reachable event s) = Inr ()"
  shows "\<exists>i ent. snd (invoke_mapping_handleApiCallProved reachable event s)
        = fmupd (''ApiCall'', VString i) ent s
      \<and> i = toHex (hash (eventTransaction event)) @ '':''
            @ bigIntToString (eventLogIndex event)
      \<and> entityId ent = VString i
      \<and> dom (entityFields ent)
          = {''callId'', ''requestHash'', ''responseHash'', ''emitter'', ''txHash'',
             ''blockNumber'', ''timestamp''}"
proof -
  have ok: "parametersWellFormed event" reachable
    using assms by (simp_all add: invoke_mapping_handleApiCallProved_succeeds_iff)
  obtain p where p: "paramsOf event = Inr p"
    using ok(1) parametersWellFormed_iff by blast
  let ?i = "toHex (hash (eventTransaction event)) @ '':''
            @ bigIntToString (eventLogIndex event)"
  have i: "apiCallId (decoded event p) = ?i"
    by (simp add: apiCallId_def decoded_fields)
  have "snd (invoke_mapping_handleApiCallProved reachable event s)
      = fmupd (''ApiCall'', VString ?i) (apiCallEntity (decoded event p)) s"
    using ok(2) by (simp add: invoke_mapping_handleApiCallProved_outcome p i)
  moreover have "entityId (apiCallEntity (decoded event p)) = VString ?i"
    by (simp add: apiCallEntity_def i)
  ultimately show ?thesis
    using dom_apiCallEntity [of "decoded event p"] by blast
qed

section \<open>Idempotence\<close>

text \<open>
  C1. For an event whose log index is a non-negative \<^verbatim>\<open>i32\<close>, and for every store: the
  handler succeeds; invoked a second time with the same event it succeeds again and
  leaves the store exactly as the first invocation left it, so both invocations write
  under the same identifier, which is in the store; the entity count after the second
  invocation is the count after the first; and the first invocation raises the count
  of the initial store by one when the identifier was not there, and by nothing when it
  was. The handler of \<^verbatim>\<open>mapping.ts\<close> does the same under its own identifier.
\<close>

theorem handleApiCallProved_idempotent:
  assumes "0 \<le> logIndex e" "logIndex e < 2 ^ 31"
  shows "fst (handleApiCallProved e s) = Inr ()
    \<and> handleApiCallProved e (snd (handleApiCallProved e s))
        = (Inr (), snd (handleApiCallProved e s))
    \<and> apiCallProvedKey e |\<in>| fmdom (snd (handleApiCallProved e s))
    \<and> entityCount (snd (handleApiCallProved e (snd (handleApiCallProved e s))))
        = entityCount (snd (handleApiCallProved e s))
    \<and> entityCount (snd (handleApiCallProved e s))
        = (if apiCallProvedKey e |\<in>| fmdom s then entityCount s else entityCount s + 1)
    \<and> fst (mapping_handleApiCallProved e s) = Inr ()
    \<and> mapping_handleApiCallProved e (snd (mapping_handleApiCallProved e s))
        = (Inr (), snd (mapping_handleApiCallProved e s))
    \<and> (''ApiCall'', VString (apiCallId e)) |\<in>| fmdom (snd (mapping_handleApiCallProved e s))
    \<and> entityCount (snd (mapping_handleApiCallProved e s))
        = (if (''ApiCall'', VString (apiCallId e)) |\<in>| fmdom s
           then entityCount s else entityCount s + 1)"
  using assms
  by (simp add: handleApiCallProved_in_range mapping_handleApiCallProved_eq entityCount_fmupd)

theorem handleApiCallProved_idempotent_witness:
  "fst (handleApiCallProved exampleEvent fmempty) = Inr ()
   \<and> handleApiCallProved exampleEvent (snd (handleApiCallProved exampleEvent fmempty))
       = (Inr (), snd (handleApiCallProved exampleEvent fmempty))
   \<and> entityCount fmempty = 0
   \<and> entityCount (snd (handleApiCallProved exampleEvent fmempty)) = 1
   \<and> entityCount (snd (handleApiCallProved exampleEvent
         (snd (handleApiCallProved exampleEvent fmempty)))) = 1
   \<and> mapping_handleApiCallProved exampleEvent
         (snd (mapping_handleApiCallProved exampleEvent fmempty))
       = (Inr (), snd (mapping_handleApiCallProved exampleEvent fmempty))
   \<and> entityCount (snd (mapping_handleApiCallProved exampleEvent fmempty)) = 1"
proof -
  have r: "0 \<le> logIndex exampleEvent" "logIndex exampleEvent < 2 ^ 31"
    by (simp_all add: exampleEvent_def)
  show ?thesis
    using handleApiCallProved_idempotent [OF r, of fmempty] entityCount_fmempty by simp
qed

section \<open>Determinism of the identifier\<close>

text \<open>
  C2. Two events that agree on the transaction hash and on the log index get the same
  result from the identifier computation, whatever their other fields are, and on any
  store the handler leaves the same set of keys for both. The same holds of the string
  identifier and of the handler of \<^verbatim>\<open>mapping.ts\<close>.
\<close>

theorem apiCallProvedId_deterministic:
  assumes "hash (transaction e1) = hash (transaction e2)" "logIndex e1 = logIndex e2"
  shows "apiCallProvedId e1 = apiCallProvedId e2
    \<and> fmdom (snd (handleApiCallProved e1 s)) = fmdom (snd (handleApiCallProved e2 s))
    \<and> apiCallId e1 = apiCallId e2
    \<and> fmdom (snd (mapping_handleApiCallProved e1 s))
        = fmdom (snd (mapping_handleApiCallProved e2 s))"
proof -
  have eq: "apiCallProvedId e1 = apiCallProvedId e2"
    using assms by (simp add: apiCallProvedId_def split: sum.splits)
  have "fmdom (snd (handleApiCallProved e1 s)) = fmdom (snd (handleApiCallProved e2 s))"
  proof (cases "apiCallProvedId e1")
    case (Inl err)
    then show ?thesis using eq by (simp add: handleApiCallProved_Inl)
  next
    case (Inr i)
    then show ?thesis using eq by (simp add: handleApiCallProved_Inr)
  qed
  moreover have "apiCallId e1 = apiCallId e2"
    using assms by (simp add: apiCallId_def)
  ultimately show ?thesis
    using eq by (simp add: mapping_handleApiCallProved_eq)
qed

theorem apiCallProvedId_deterministic_witness:
  "callId (params exampleEvent) \<noteq> callId (params otherFieldsEvent)
   \<and> requestHash (params exampleEvent) \<noteq> requestHash (params otherFieldsEvent)
   \<and> responseHash (params exampleEvent) \<noteq> responseHash (params otherFieldsEvent)
   \<and> emitter (params exampleEvent) \<noteq> emitter (params otherFieldsEvent)
   \<and> number (block exampleEvent) \<noteq> number (block otherFieldsEvent)
   \<and> timestamp (block exampleEvent) \<noteq> timestamp (block otherFieldsEvent)
   \<and> apiCallProvedId exampleEvent = apiCallProvedId otherFieldsEvent
   \<and> apiCallProvedId otherFieldsEvent = Inr (exampleHash @ [0, 0, 0, 0])
   \<and> apiCallId exampleEvent = apiCallId otherFieldsEvent"
proof -
  have h: "hash (transaction exampleEvent) = hash (transaction otherFieldsEvent)"
    and l: "logIndex exampleEvent = logIndex otherFieldsEvent"
    by (simp_all add: exampleEvent_def otherFieldsEvent_def)
  have d: "callId (params exampleEvent) \<noteq> callId (params otherFieldsEvent)"
    "requestHash (params exampleEvent) \<noteq> requestHash (params otherFieldsEvent)"
    "responseHash (params exampleEvent) \<noteq> responseHash (params otherFieldsEvent)"
    "emitter (params exampleEvent) \<noteq> emitter (params otherFieldsEvent)"
    "number (block exampleEvent) \<noteq> number (block otherFieldsEvent)"
    "timestamp (block exampleEvent) \<noteq> timestamp (block otherFieldsEvent)"
    by (simp_all add: exampleEvent_def otherFieldsEvent_def)
  show ?thesis
    using apiCallProvedId_deterministic [OF h l, of fmempty] d exampleEvent_id by simp
qed

section \<open>Uniqueness of the identifier\<close>

text \<open>
  C3. Two events whose log indices are non-negative \<^verbatim>\<open>i32\<close> values and that differ in
  the transaction hash or in the log index are both assigned an identifier, and the two
  identifiers differ. The string identifiers that \<^verbatim>\<open>mapping.ts\<close> gives them differ too.
\<close>

theorem apiCallProvedId_unique:
  assumes r1: "0 \<le> logIndex e1" "logIndex e1 < 2 ^ 31"
    and r2: "0 \<le> logIndex e2" "logIndex e2 < 2 ^ 31"
    and ne: "hash (transaction e1) \<noteq> hash (transaction e2) \<or> logIndex e1 \<noteq> logIndex e2"
  shows "(\<exists>i1 i2. apiCallProvedId e1 = Inr i1 \<and> apiCallProvedId e2 = Inr i2 \<and> i1 \<noteq> i2)
    \<and> apiCallId e1 \<noteq> apiCallId e2"
proof -
  have "apiCallProvedId e1 \<noteq> apiCallProvedId e2"
    using apiCallProvedId_inj [OF r1 r2] ne by blast
  then have "\<exists>i1 i2. apiCallProvedId e1 = Inr i1 \<and> apiCallProvedId e2 = Inr i2 \<and> i1 \<noteq> i2"
    using apiCallProvedId_in_range [OF r1] apiCallProvedId_in_range [OF r2] by simp
  moreover have "apiCallId e1 \<noteq> apiCallId e2"
    using apiCallId_inj [of e1 e2] ne by blast
  ultimately show ?thesis by simp
qed

theorem apiCallProvedId_unique_witness:
  "hash (transaction exampleEvent) = hash (transaction secondLogEvent)
   \<and> logIndex exampleEvent = 0 \<and> logIndex secondLogEvent = 1
   \<and> apiCallProvedId exampleEvent = Inr (exampleHash @ [0, 0, 0, 0])
   \<and> apiCallProvedId secondLogEvent = Inr (exampleHash @ [1, 0, 0, 0])
   \<and> apiCallProvedId exampleEvent \<noteq> apiCallProvedId secondLogEvent
   \<and> apiCallId exampleEvent \<noteq> apiCallId secondLogEvent"
proof -
  have r1: "0 \<le> logIndex exampleEvent" "logIndex exampleEvent < 2 ^ 31"
    and r2: "0 \<le> logIndex secondLogEvent" "logIndex secondLogEvent < 2 ^ 31"
    and ne: "hash (transaction exampleEvent) \<noteq> hash (transaction secondLogEvent)
      \<or> logIndex exampleEvent \<noteq> logIndex secondLogEvent"
    by (simp_all add: exampleEvent_def secondLogEvent_def)
  note t = apiCallProvedId_unique [OF r1 r2 ne]
  have a: "apiCallProvedId exampleEvent \<noteq> apiCallProvedId secondLogEvent"
    using t [THEN conjunct1] by auto
  have b: "apiCallId exampleEvent \<noteq> apiCallId secondLogEvent"
    by (rule t [THEN conjunct2])
  have c: "hash (transaction exampleEvent) = hash (transaction secondLogEvent)"
    "logIndex exampleEvent = 0" "logIndex secondLogEvent = 1"
    by (simp_all add: exampleEvent_def secondLogEvent_def)
  show ?thesis
    by (intro conjI) (rule a b c exampleEvent_id secondLogEvent_id)+
qed

section \<open>The encoding of the identifier\<close>

text \<open>
  C4. For an event whose log index is a non-negative \<^verbatim>\<open>i32\<close>, the identifier is the bytes
  of the transaction hash followed by four bytes that encode the log index: the
  base-256 digits of the log index, least significant first, from which the log index is
  read back; these are the bytes of the big-endian encoding in reverse order. The
  identifier is four bytes longer than the hash, it is the key the handler writes, and
  neither the computation nor the handler takes an error branch.
\<close>

theorem apiCallProvedId_encoding:
  assumes r: "0 \<le> logIndex e" "logIndex e < 2 ^ 31"
  shows "apiCallProvedId e = Inr (hash (transaction e) @ fromI32 (word_of_int (logIndex e)))
    \<and> fst (handleApiCallProved e s) = Inr ()
    \<and> fmdom (snd (handleApiCallProved e s))
        = finsert (''ApiCallProved'',
            VBytes (hash (transaction e) @ fromI32 (word_of_int (logIndex e)))) (fmdom s)
    \<and> length (hash (transaction e) @ fromI32 (word_of_int (logIndex e)))
        = length (hash (transaction e)) + 4
    \<and> fromI32 (word_of_int (logIndex e))
        = [word_of_int (logIndex e), word_of_int (logIndex e div 2 ^ 8),
           word_of_int (logIndex e div 2 ^ 16), word_of_int (logIndex e div 2 ^ 24)]
    \<and> uint (fromI32 (word_of_int (logIndex e)) ! 0)
        + 2 ^ 8 * uint (fromI32 (word_of_int (logIndex e)) ! 1)
        + 2 ^ 16 * uint (fromI32 (word_of_int (logIndex e)) ! 2)
        + 2 ^ 24 * uint (fromI32 (word_of_int (logIndex e)) ! 3) = logIndex e
    \<and> fromI32 (word_of_int (logIndex e)) = rev (bigEndianI32 (word_of_int (logIndex e)))"
proof (intro conjI)
  show "apiCallProvedId e = Inr (hash (transaction e) @ fromI32 (word_of_int (logIndex e)))"
    by (rule apiCallProvedId_in_range [OF r])
  show "fst (handleApiCallProved e s) = Inr ()"
    by (simp add: handleApiCallProved_in_range [OF r])
  show "fmdom (snd (handleApiCallProved e s))
      = finsert (''ApiCallProved'',
          VBytes (hash (transaction e) @ fromI32 (word_of_int (logIndex e)))) (fmdom s)"
    by (simp add: handleApiCallProved_in_range [OF r] apiCallProvedKey_def concatI32_def)
  show "length (hash (transaction e) @ fromI32 (word_of_int (logIndex e)))
      = length (hash (transaction e)) + 4"
    by (simp add: length_fromI32)
  show "fromI32 (word_of_int (logIndex e))
      = [word_of_int (logIndex e), word_of_int (logIndex e div 2 ^ 8),
         word_of_int (logIndex e div 2 ^ 16), word_of_int (logIndex e div 2 ^ 24)]"
    by (rule fromI32_digits [OF r])
  show "uint (fromI32 (word_of_int (logIndex e)) ! 0)
      + 2 ^ 8 * uint (fromI32 (word_of_int (logIndex e)) ! 1)
      + 2 ^ 16 * uint (fromI32 (word_of_int (logIndex e)) ! 2)
      + 2 ^ 24 * uint (fromI32 (word_of_int (logIndex e)) ! 3) = logIndex e"
    by (rule fromI32_decode [OF r])
  show "fromI32 (word_of_int (logIndex e)) = rev (bigEndianI32 (word_of_int (logIndex e)))"
    by (rule fromI32_rev_bigEndian)
qed

theorem apiCallProvedId_encoding_witness:
  "apiCallProvedId secondLogEvent = Inr (exampleHash @ [1, 0, 0, 0])
   \<and> length (exampleHash @ [1, 0, 0, 0 :: 8 word]) = 36
   \<and> fst (handleApiCallProved secondLogEvent fmempty) = Inr ()
   \<and> fmdom (snd (handleApiCallProved secondLogEvent fmempty))
       = {|(''ApiCallProved'', VBytes (exampleHash @ [1, 0, 0, 0]))|}"
proof -
  have r: "0 \<le> logIndex secondLogEvent" "logIndex secondLogEvent < 2 ^ 31"
    by (simp_all add: secondLogEvent_def)
  have h: "hash (transaction secondLogEvent) @ fromI32 (word_of_int (logIndex secondLogEvent))
      = exampleHash @ [1, 0, 0, 0]"
    by (simp add: secondLogEvent_def exampleEvent_def fromI32_def)
  note t = apiCallProvedId_encoding [OF r, of fmempty, unfolded h]
  have l: "length (exampleHash @ [1, 0, 0, 0 :: 8 word]) = 36"
    by (simp add: exampleHash_def)
  have "apiCallProvedId secondLogEvent = Inr (exampleHash @ [1, 0, 0, 0])"
    by (rule t [THEN conjunct1])
  moreover have "fst (handleApiCallProved secondLogEvent fmempty) = Inr ()"
    by (rule t [THEN conjunct2, THEN conjunct1])
  moreover have "fmdom (snd (handleApiCallProved secondLogEvent fmempty))
       = {|(''ApiCallProved'', VBytes (exampleHash @ [1, 0, 0, 0]))|}"
    using t [THEN conjunct2, THEN conjunct2, THEN conjunct1] by simp
  ultimately have "apiCallProvedId secondLogEvent = Inr (exampleHash @ [1, 0, 0, 0])
    \<and> fst (handleApiCallProved secondLogEvent fmempty) = Inr ()
    \<and> fmdom (snd (handleApiCallProved secondLogEvent fmempty))
       = {|(''ApiCallProved'', VBytes (exampleHash @ [1, 0, 0, 0]))|}"
    by simp
  with l show ?thesis by simp
qed

section \<open>Field fidelity\<close>

text \<open>
  C5. For an event whose log index is a non-negative \<^verbatim>\<open>i32\<close>, and for every store: after
  the handler has run, the store holds, under the identifier of the event, an entity
  whose \<^verbatim>\<open>callId\<close>, \<^verbatim>\<open>requestHash\<close>, \<^verbatim>\<open>responseHash\<close> and \<^verbatim>\<open>emitter\<close> are the event's
  parameters and whose \<^verbatim>\<open>blockNumber\<close>, \<^verbatim>\<open>blockTimestamp\<close> and \<^verbatim>\<open>transactionHash\<close> are
  the event's block number, block timestamp and transaction hash; the entity has no other
  field. After the handler of \<^verbatim>\<open>mapping.ts\<close> has run, the store holds under the string
  identifier an entity with the same seven values, the last three under the names
  \<^verbatim>\<open>blockNumber\<close>, \<^verbatim>\<open>timestamp\<close> and \<^verbatim>\<open>txHash\<close>.
\<close>

theorem handleApiCallProved_field_fidelity:
  assumes r: "0 \<le> logIndex e" "logIndex e < 2 ^ 31"
  shows "(\<exists>i ent. apiCallProvedId e = Inr i
      \<and> store_get (snd (handleApiCallProved e s)) ''ApiCallProved'' (VBytes i) = Some ent
      \<and> entityId ent = VBytes i
      \<and> entityFields ent ''callId'' = Some (VString (callId (params e)))
      \<and> entityFields ent ''requestHash'' = Some (VString (requestHash (params e)))
      \<and> entityFields ent ''responseHash'' = Some (VString (responseHash (params e)))
      \<and> entityFields ent ''emitter'' = Some (VBytes (emitter (params e)))
      \<and> entityFields ent ''blockNumber'' = Some (VBigInt (number (block e)))
      \<and> entityFields ent ''blockTimestamp'' = Some (VBigInt (timestamp (block e)))
      \<and> entityFields ent ''transactionHash'' = Some (VBytes (hash (transaction e)))
      \<and> dom (entityFields ent)
          = {''callId'', ''requestHash'', ''responseHash'', ''emitter'', ''blockNumber'',
             ''blockTimestamp'', ''transactionHash''})
    \<and> (\<exists>ent. store_get (snd (mapping_handleApiCallProved e s)) ''ApiCall''
          (VString (apiCallId e)) = Some ent
      \<and> entityId ent = VString (apiCallId e)
      \<and> entityFields ent ''callId'' = Some (VString (callId (params e)))
      \<and> entityFields ent ''requestHash'' = Some (VString (requestHash (params e)))
      \<and> entityFields ent ''responseHash'' = Some (VString (responseHash (params e)))
      \<and> entityFields ent ''emitter'' = Some (VBytes (emitter (params e)))
      \<and> entityFields ent ''txHash'' = Some (VBytes (hash (transaction e)))
      \<and> entityFields ent ''blockNumber'' = Some (VBigInt (number (block e)))
      \<and> entityFields ent ''timestamp'' = Some (VBigInt (timestamp (block e)))
      \<and> dom (entityFields ent)
          = {''callId'', ''requestHash'', ''responseHash'', ''emitter'', ''txHash'',
             ''blockNumber'', ''timestamp''})"
proof (rule conjI)
  obtain i where i: "apiCallProvedId e = Inr i"
    using apiCallProvedId_in_range [OF r] by simp
  have g: "store_get (snd (handleApiCallProved e s)) ''ApiCallProved'' (VBytes i)
      = Some (apiCallProvedEntity e i)"
    by (simp add: handleApiCallProved_Inr [OF i] store_get_def)
  have f: "entityId (apiCallProvedEntity e i) = VBytes i"
    "entityFields (apiCallProvedEntity e i) ''callId'' = Some (VString (callId (params e)))"
    "entityFields (apiCallProvedEntity e i) ''requestHash''
      = Some (VString (requestHash (params e)))"
    "entityFields (apiCallProvedEntity e i) ''responseHash''
      = Some (VString (responseHash (params e)))"
    "entityFields (apiCallProvedEntity e i) ''emitter'' = Some (VBytes (emitter (params e)))"
    "entityFields (apiCallProvedEntity e i) ''blockNumber''
      = Some (VBigInt (number (block e)))"
    "entityFields (apiCallProvedEntity e i) ''blockTimestamp''
      = Some (VBigInt (timestamp (block e)))"
    "entityFields (apiCallProvedEntity e i) ''transactionHash''
      = Some (VBytes (hash (transaction e)))"
    by (simp_all add: apiCallProvedEntity_def)
  show "\<exists>i ent. apiCallProvedId e = Inr i
      \<and> store_get (snd (handleApiCallProved e s)) ''ApiCallProved'' (VBytes i) = Some ent
      \<and> entityId ent = VBytes i
      \<and> entityFields ent ''callId'' = Some (VString (callId (params e)))
      \<and> entityFields ent ''requestHash'' = Some (VString (requestHash (params e)))
      \<and> entityFields ent ''responseHash'' = Some (VString (responseHash (params e)))
      \<and> entityFields ent ''emitter'' = Some (VBytes (emitter (params e)))
      \<and> entityFields ent ''blockNumber'' = Some (VBigInt (number (block e)))
      \<and> entityFields ent ''blockTimestamp'' = Some (VBigInt (timestamp (block e)))
      \<and> entityFields ent ''transactionHash'' = Some (VBytes (hash (transaction e)))
      \<and> dom (entityFields ent)
          = {''callId'', ''requestHash'', ''responseHash'', ''emitter'', ''blockNumber'',
             ''blockTimestamp'', ''transactionHash''}"
    by (intro exI conjI) (rule i g f dom_apiCallProvedEntity)+
next
  have f: "entityId (apiCallEntity e) = VString (apiCallId e)"
    "entityFields (apiCallEntity e) ''callId'' = Some (VString (callId (params e)))"
    "entityFields (apiCallEntity e) ''requestHash'' = Some (VString (requestHash (params e)))"
    "entityFields (apiCallEntity e) ''responseHash''
      = Some (VString (responseHash (params e)))"
    "entityFields (apiCallEntity e) ''emitter'' = Some (VBytes (emitter (params e)))"
    "entityFields (apiCallEntity e) ''txHash'' = Some (VBytes (hash (transaction e)))"
    "entityFields (apiCallEntity e) ''blockNumber'' = Some (VBigInt (number (block e)))"
    "entityFields (apiCallEntity e) ''timestamp'' = Some (VBigInt (timestamp (block e)))"
    by (simp_all add: apiCallEntity_def)
  show "\<exists>ent. store_get (snd (mapping_handleApiCallProved e s)) ''ApiCall''
          (VString (apiCallId e)) = Some ent
      \<and> entityId ent = VString (apiCallId e)
      \<and> entityFields ent ''callId'' = Some (VString (callId (params e)))
      \<and> entityFields ent ''requestHash'' = Some (VString (requestHash (params e)))
      \<and> entityFields ent ''responseHash'' = Some (VString (responseHash (params e)))
      \<and> entityFields ent ''emitter'' = Some (VBytes (emitter (params e)))
      \<and> entityFields ent ''txHash'' = Some (VBytes (hash (transaction e)))
      \<and> entityFields ent ''blockNumber'' = Some (VBigInt (number (block e)))
      \<and> entityFields ent ''timestamp'' = Some (VBigInt (timestamp (block e)))
      \<and> dom (entityFields ent)
          = {''callId'', ''requestHash'', ''responseHash'', ''emitter'', ''txHash'',
             ''blockNumber'', ''timestamp''}"
    by (intro exI conjI)
      (rule mapping_handleApiCallProved_get f dom_apiCallEntity)+
qed

theorem handleApiCallProved_field_fidelity_witness:
  "(\<exists>ent. store_get (snd (handleApiCallProved exampleEvent fmempty)) ''ApiCallProved''
        (VBytes (exampleHash @ [0, 0, 0, 0])) = Some ent
    \<and> entityId ent = VBytes (exampleHash @ [0, 0, 0, 0])
    \<and> entityFields ent ''callId'' = Some (VString ''call-1'')
    \<and> entityFields ent ''requestHash'' = Some (VString ''req-1'')
    \<and> entityFields ent ''responseHash'' = Some (VString ''res-1'')
    \<and> entityFields ent ''emitter'' = Some (VBytes (replicate 19 0 @ [1]))
    \<and> entityFields ent ''blockNumber'' = Some (VBigInt 100)
    \<and> entityFields ent ''blockTimestamp'' = Some (VBigInt 1700000000)
    \<and> entityFields ent ''transactionHash'' = Some (VBytes exampleHash)
    \<and> dom (entityFields ent)
        = {''callId'', ''requestHash'', ''responseHash'', ''emitter'', ''blockNumber'',
           ''blockTimestamp'', ''transactionHash''})
   \<and> (\<exists>ent. store_get (snd (mapping_handleApiCallProved exampleEvent fmempty)) ''ApiCall''
        (VString ''0xaaaaaaaaaaaaaaaaaaaaaaaaaaaaaaaaaaaaaaaaaaaaaaaaaaaaaaaaaaaaaa01:0'')
        = Some ent
    \<and> entityId ent
        = VString ''0xaaaaaaaaaaaaaaaaaaaaaaaaaaaaaaaaaaaaaaaaaaaaaaaaaaaaaaaaaaaaaa01:0''
    \<and> entityFields ent ''callId'' = Some (VString ''call-1'')
    \<and> entityFields ent ''requestHash'' = Some (VString ''req-1'')
    \<and> entityFields ent ''responseHash'' = Some (VString ''res-1'')
    \<and> entityFields ent ''emitter'' = Some (VBytes (replicate 19 0 @ [1]))
    \<and> entityFields ent ''txHash'' = Some (VBytes exampleHash)
    \<and> entityFields ent ''blockNumber'' = Some (VBigInt 100)
    \<and> entityFields ent ''timestamp'' = Some (VBigInt 1700000000)
    \<and> dom (entityFields ent)
        = {''callId'', ''requestHash'', ''responseHash'', ''emitter'', ''txHash'',
           ''blockNumber'', ''timestamp''})"
proof -
  have r: "0 \<le> logIndex exampleEvent" "logIndex exampleEvent < 2 ^ 31"
    by (simp_all add: exampleEvent_def)
  have p: "callId (params exampleEvent) = ''call-1''"
    "requestHash (params exampleEvent) = ''req-1''"
    "responseHash (params exampleEvent) = ''res-1''"
    "emitter (params exampleEvent) = replicate 19 0 @ [1]"
    "number (block exampleEvent) = 100"
    "timestamp (block exampleEvent) = 1700000000"
    "hash (transaction exampleEvent) = exampleHash"
    by (simp_all add: exampleEvent_def)
  note t = handleApiCallProved_field_fidelity [OF r, of fmempty]
  have a: "\<exists>ent. store_get (snd (handleApiCallProved exampleEvent fmempty)) ''ApiCallProved''
        (VBytes (exampleHash @ [0, 0, 0, 0])) = Some ent
    \<and> entityId ent = VBytes (exampleHash @ [0, 0, 0, 0])
    \<and> entityFields ent ''callId'' = Some (VString ''call-1'')
    \<and> entityFields ent ''requestHash'' = Some (VString ''req-1'')
    \<and> entityFields ent ''responseHash'' = Some (VString ''res-1'')
    \<and> entityFields ent ''emitter'' = Some (VBytes (replicate 19 0 @ [1]))
    \<and> entityFields ent ''blockNumber'' = Some (VBigInt 100)
    \<and> entityFields ent ''blockTimestamp'' = Some (VBigInt 1700000000)
    \<and> entityFields ent ''transactionHash'' = Some (VBytes exampleHash)
    \<and> dom (entityFields ent)
        = {''callId'', ''requestHash'', ''responseHash'', ''emitter'', ''blockNumber'',
           ''blockTimestamp'', ''transactionHash''}"
    using t [THEN conjunct1] by (simp add: p exampleEvent_id)
  have b: "\<exists>ent. store_get (snd (mapping_handleApiCallProved exampleEvent fmempty)) ''ApiCall''
        (VString ''0xaaaaaaaaaaaaaaaaaaaaaaaaaaaaaaaaaaaaaaaaaaaaaaaaaaaaaaaaaaaaaa01:0'')
        = Some ent
    \<and> entityId ent
        = VString ''0xaaaaaaaaaaaaaaaaaaaaaaaaaaaaaaaaaaaaaaaaaaaaaaaaaaaaaaaaaaaaaa01:0''
    \<and> entityFields ent ''callId'' = Some (VString ''call-1'')
    \<and> entityFields ent ''requestHash'' = Some (VString ''req-1'')
    \<and> entityFields ent ''responseHash'' = Some (VString ''res-1'')
    \<and> entityFields ent ''emitter'' = Some (VBytes (replicate 19 0 @ [1]))
    \<and> entityFields ent ''txHash'' = Some (VBytes exampleHash)
    \<and> entityFields ent ''blockNumber'' = Some (VBigInt 100)
    \<and> entityFields ent ''timestamp'' = Some (VBigInt 1700000000)
    \<and> dom (entityFields ent)
        = {''callId'', ''requestHash'', ''responseHash'', ''emitter'', ''txHash'',
           ''blockNumber'', ''timestamp''}"
    using t [THEN conjunct2] unfolding p exampleEvent_apiCallId .
  from a b show ?thesis by (rule conjI)
qed

section \<open>Events of the wrong shape\<close>

text \<open>
  Neither handler looks at the width of a byte array. The example event delivered with an
  empty transaction hash, its four parameters as the fixture builds them, is processed
  like any other: each handler succeeds and leaves one entity in the store, the first
  under the four bytes of the log index.
\<close>

theorem invocation_persists_wrong_width_hash:
  "length (hash (eventTransaction wrongWidthHashEvent)) \<noteq> 32
   \<and> parametersWellFormed wrongWidthHashEvent
   \<and> eventLogIndex wrongWidthHashEvent = 0
   \<and> fst (invoke_handleApiCallProved True wrongWidthHashEvent fmempty) = Inr ()
   \<and> store_get (snd (invoke_handleApiCallProved True wrongWidthHashEvent fmempty))
        ''ApiCallProved'' (VBytes [0, 0, 0, 0]) \<noteq> None
   \<and> entityCount (snd (invoke_handleApiCallProved True wrongWidthHashEvent fmempty)) = 1
   \<and> fst (invoke_mapping_handleApiCallProved True wrongWidthHashEvent fmempty) = Inr ()
   \<and> entityCount (snd (invoke_mapping_handleApiCallProved True wrongWidthHashEvent fmempty))
       = 1"
proof -
  let ?p = "\<lparr>callId = ''call-1'', requestHash = ''req-1'', responseHash = ''res-1'',
            emitter = replicate 19 0 @ [1]\<rparr>"
  have w: "parametersWellFormed wrongWidthHashEvent"
    using parametersWellFormed_iff paramsOf_wrongWidthHashEvent by blast
  have l: "length (hash (eventTransaction wrongWidthHashEvent)) \<noteq> 32"
    "eventLogIndex wrongWidthHashEvent = 0"
    by (simp_all add: wrongWidthHashEvent_def deliveredEvent_def)
  have i: "apiCallProvedId (decoded wrongWidthHashEvent ?p) = Inr [0, 0, 0, 0]"
    by (simp add: apiCallProvedId_def decoded_def wrongWidthHashEvent_def deliveredEvent_def
        toI32_def concatI32_def fromI32_def)
  have a: "invoke_handleApiCallProved True wrongWidthHashEvent fmempty
      = (Inr (), fmupd (''ApiCallProved'', VBytes [0, 0, 0, 0])
           (apiCallProvedEntity (decoded wrongWidthHashEvent ?p) [0, 0, 0, 0]) fmempty)"
    by (simp only: invoke_handleApiCallProved_decoded [OF paramsOf_wrongWidthHashEvent]
        handleApiCallProved_Inr [OF i])
  have b: "invoke_mapping_handleApiCallProved True wrongWidthHashEvent fmempty
      = (Inr (), fmupd (''ApiCall'', VString (apiCallId (decoded wrongWidthHashEvent ?p)))
           (apiCallEntity (decoded wrongWidthHashEvent ?p)) fmempty)"
    by (simp only: invoke_mapping_handleApiCallProved_decoded [OF paramsOf_wrongWidthHashEvent]
        mapping_handleApiCallProved_eq)
  show ?thesis
    using w l by (simp add: a b store_get_def entityCount_fmupd entityCount_fmempty)
qed

text \<open>
  C6, as the code has it. An invocation on an event whose parameter list lacks one of the
  four parameters, or holds a value of the wrong kind in its place (the first three are
  strings, the fourth an address), fails with \<open>MalformedEvent\<close> in both handlers and leaves
  the store it found; in the first handler this is so when the log index is a non-negative
  \<^verbatim>\<open>i32\<close>, because the identifier is computed before any parameter is read, and a log
  index of \<open>2 ^ 32\<close> or more aborts there with an overflow, the store again left as found.
  An invocation on an event with the four parameters present and of the right kind, on a
  reachable store, is the handler on the decoded event, whose fields are the values of the
  parameters: the second handler succeeds, and the first succeeds when the log index is a
  non-negative \<^verbatim>\<open>i32\<close>. The transaction hash plays no part in the outcome: replacing it by
  any byte array, of any width, leaves success and every failure as they were.
\<close>

theorem invocation_fails_on_malformed_parameters:
  "(2 ^ 32 \<le> eventLogIndex event \<longrightarrow>
      invoke_handleApiCallProved reachable event s = (Inl Overflow, s))
   \<and> (0 \<le> eventLogIndex event \<and> eventLogIndex event < 2 ^ 31
        \<and> \<not> parametersWellFormed event \<longrightarrow>
      invoke_handleApiCallProved reachable event s = (Inl MalformedEvent, s))
   \<and> (\<not> parametersWellFormed event \<longrightarrow>
      invoke_mapping_handleApiCallProved reachable event s = (Inl MalformedEvent, s))
   \<and> (parametersWellFormed event \<longrightarrow>
      (\<exists>p. paramValue (parameters event ! 0) = StringValue (callId p)
         \<and> paramValue (parameters event ! 1) = StringValue (requestHash p)
         \<and> paramValue (parameters event ! 2) = StringValue (responseHash p)
         \<and> paramValue (parameters event ! 3) = AddressValue (emitter p)
         \<and> invoke_handleApiCallProved True event s = handleApiCallProved (decoded event p) s
         \<and> invoke_mapping_handleApiCallProved True event s
             = mapping_handleApiCallProved (decoded event p) s
         \<and> fst (invoke_mapping_handleApiCallProved True event s) = Inr ()))
   \<and> (0 \<le> eventLogIndex event \<and> eventLogIndex event < 2 ^ 31
        \<and> parametersWellFormed event \<longrightarrow>
      fst (invoke_handleApiCallProved True event s) = Inr ())
   \<and> fst (invoke_handleApiCallProved reachable
          (event\<lparr>eventTransaction := \<lparr>hash = h\<rparr>\<rparr>) s)
       = fst (invoke_handleApiCallProved reachable event s)
   \<and> fst (invoke_mapping_handleApiCallProved reachable
          (event\<lparr>eventTransaction := \<lparr>hash = h\<rparr>\<rparr>) s)
       = fst (invoke_mapping_handleApiCallProved reachable event s)"
proof (intro conjI impI)
  assume "2 ^ 32 \<le> eventLogIndex event"
  then have "toI32 (eventLogIndex event) = Inl Overflow"
    by (rule toI32_too_large)
  then show "invoke_handleApiCallProved reachable event s = (Inl Overflow, s)"
    by (rule invoke_handleApiCallProved_overflow)
next
  assume a: "0 \<le> eventLogIndex event \<and> eventLogIndex event < 2 ^ 31
      \<and> \<not> parametersWellFormed event"
  then have "toI32 (eventLogIndex event) = Inr (word_of_int (eventLogIndex event))"
    by (simp add: toI32_in_range)
  moreover have "paramsOf event = Inl MalformedEvent"
    using a by (simp add: paramsOf_malformed)
  ultimately show "invoke_handleApiCallProved reachable event s = (Inl MalformedEvent, s)"
    by (rule invoke_handleApiCallProved_malformed)
next
  assume "\<not> parametersWellFormed event"
  then have "paramsOf event = Inl MalformedEvent"
    by (rule paramsOf_malformed)
  then show "invoke_mapping_handleApiCallProved reachable event s = (Inl MalformedEvent, s)"
    by (rule invoke_mapping_handleApiCallProved_malformed)
next
  assume "parametersWellFormed event"
  then obtain p where p: "paramsOf event = Inr p"
    using parametersWellFormed_iff by blast
  have k: "paramValue (parameters event ! 0) = StringValue (callId p)"
    "paramValue (parameters event ! 1) = StringValue (requestHash p)"
    "paramValue (parameters event ! 2) = StringValue (responseHash p)"
    "paramValue (parameters event ! 3) = AddressValue (emitter p)"
    using p by (simp_all add: paramsOf_well_formed_iff)
  have m: "invoke_mapping_handleApiCallProved True event s
      = mapping_handleApiCallProved (decoded event p) s"
    by (rule invoke_mapping_handleApiCallProved_decoded [OF p])
  have t: "fst (invoke_mapping_handleApiCallProved True event s) = Inr ()"
    by (simp only: m mapping_handleApiCallProved_total)
  show "\<exists>p. paramValue (parameters event ! 0) = StringValue (callId p)
         \<and> paramValue (parameters event ! 1) = StringValue (requestHash p)
         \<and> paramValue (parameters event ! 2) = StringValue (responseHash p)
         \<and> paramValue (parameters event ! 3) = AddressValue (emitter p)
         \<and> invoke_handleApiCallProved True event s = handleApiCallProved (decoded event p) s
         \<and> invoke_mapping_handleApiCallProved True event s
             = mapping_handleApiCallProved (decoded event p) s
         \<and> fst (invoke_mapping_handleApiCallProved True event s) = Inr ()"
    by (intro exI conjI)
      (rule k invoke_handleApiCallProved_decoded [OF p] m t)+
next
  assume a: "0 \<le> eventLogIndex event \<and> eventLogIndex event < 2 ^ 31
      \<and> parametersWellFormed event"
  then obtain p where p: "paramsOf event = Inr p"
    using parametersWellFormed_iff by blast
  have "0 \<le> logIndex (decoded event p)" "logIndex (decoded event p) < 2 ^ 31"
    using a by (simp_all add: decoded_fields)
  then have "fst (handleApiCallProved (decoded event p) s) = Inr ()"
    by (simp add: handleApiCallProved_in_range)
  then show "fst (invoke_handleApiCallProved True event s) = Inr ()"
    by (simp only: invoke_handleApiCallProved_decoded [OF p])
next
  have g: "params_callId (event\<lparr>eventTransaction := \<lparr>hash = h\<rparr>\<rparr>) = params_callId event"
    "params_requestHash (event\<lparr>eventTransaction := \<lparr>hash = h\<rparr>\<rparr>)
      = params_requestHash event"
    "params_responseHash (event\<lparr>eventTransaction := \<lparr>hash = h\<rparr>\<rparr>)
      = params_responseHash event"
    "params_emitter (event\<lparr>eventTransaction := \<lparr>hash = h\<rparr>\<rparr>) = params_emitter event"
    by (simp_all add: params_callId_def params_requestHash_def params_responseHash_def
        params_emitter_def parameterAt_def)
  show "fst (invoke_handleApiCallProved reachable
          (event\<lparr>eventTransaction := \<lparr>hash = h\<rparr>\<rparr>) s)
       = fst (invoke_handleApiCallProved reachable event s)"
    by (simp add: invoke_handleApiCallProved_def g upsert_def Let_def split: sum.splits)
  show "fst (invoke_mapping_handleApiCallProved reachable
          (event\<lparr>eventTransaction := \<lparr>hash = h\<rparr>\<rparr>) s)
       = fst (invoke_mapping_handleApiCallProved reachable event s)"
    by (simp add: invoke_mapping_handleApiCallProved_def g upsert_def Let_def
        split: sum.splits)
qed

theorem invocation_fails_on_malformed_parameters_witness:
  "invoke_handleApiCallProved True hugeIndexDelivery fmempty = (Inl Overflow, fmempty)
   \<and> \<not> parametersWellFormed absentEmitterEvent
   \<and> invoke_handleApiCallProved True absentEmitterEvent fmempty
       = (Inl MalformedEvent, fmempty)
   \<and> invoke_mapping_handleApiCallProved True absentEmitterEvent fmempty
       = (Inl MalformedEvent, fmempty)
   \<and> \<not> parametersWellFormed wrongKindEmitterEvent
   \<and> invoke_handleApiCallProved True wrongKindEmitterEvent fmempty
       = (Inl MalformedEvent, fmempty)
   \<and> invoke_mapping_handleApiCallProved True wrongKindEmitterEvent fmempty
       = (Inl MalformedEvent, fmempty)
   \<and> parametersWellFormed deliveredEvent
   \<and> fst (invoke_handleApiCallProved True deliveredEvent fmempty) = Inr ()
   \<and> fst (invoke_mapping_handleApiCallProved True deliveredEvent fmempty) = Inr ()
   \<and> invoke_handleApiCallProved True deliveredEvent fmempty
       = handleApiCallProved exampleEvent fmempty
   \<and> invoke_mapping_handleApiCallProved True deliveredEvent fmempty
       = mapping_handleApiCallProved exampleEvent fmempty
   \<and> fst (invoke_handleApiCallProved True wrongWidthHashEvent fmempty)
       = fst (invoke_handleApiCallProved True deliveredEvent fmempty)"
proof -
  note t = invocation_fails_on_malformed_parameters
  have big: "(2::int) ^ 32 \<le> eventLogIndex hugeIndexDelivery"
    by (simp add: hugeIndexDelivery_def deliveredEvent_def)
  have r1: "0 \<le> eventLogIndex absentEmitterEvent \<and> eventLogIndex absentEmitterEvent < 2 ^ 31
      \<and> \<not> parametersWellFormed absentEmitterEvent"
    using absentEmitterEvent_malformed
    by (simp add: absentEmitterEvent_def deliveredEvent_def parametersWellFormed_iff)
  have r2: "0 \<le> eventLogIndex wrongKindEmitterEvent
      \<and> eventLogIndex wrongKindEmitterEvent < 2 ^ 31
      \<and> \<not> parametersWellFormed wrongKindEmitterEvent"
    using wrongKindEmitterEvent_malformed
    by (simp add: wrongKindEmitterEvent_def deliveredEvent_def parametersWellFormed_iff)
  have r3: "0 \<le> eventLogIndex deliveredEvent \<and> eventLogIndex deliveredEvent < 2 ^ 31
      \<and> parametersWellFormed deliveredEvent"
    using deliveredEvent_well_formed by (simp add: deliveredEvent_def)
  have n1: "\<not> parametersWellFormed absentEmitterEvent"
    using r1 by simp
  have n2: "\<not> parametersWellFormed wrongKindEmitterEvent"
    using r2 by simp
  have c1: "invoke_handleApiCallProved True hugeIndexDelivery fmempty
      = (Inl Overflow, fmempty)"
    by (rule t [where event = hugeIndexDelivery and reachable = True and s = fmempty,
          THEN conjunct1, THEN mp, OF big])
  have c2: "invoke_handleApiCallProved True absentEmitterEvent fmempty
      = (Inl MalformedEvent, fmempty)"
    by (rule t [where event = absentEmitterEvent and reachable = True and s = fmempty,
          THEN conjunct2, THEN conjunct1, THEN mp, OF r1])
  have c3: "invoke_mapping_handleApiCallProved True absentEmitterEvent fmempty
      = (Inl MalformedEvent, fmempty)"
    by (rule t [where event = absentEmitterEvent and reachable = True and s = fmempty,
          THEN conjunct2, THEN conjunct2, THEN conjunct1, THEN mp, OF n1])
  have c4: "invoke_handleApiCallProved True wrongKindEmitterEvent fmempty
      = (Inl MalformedEvent, fmempty)"
    by (rule t [where event = wrongKindEmitterEvent and reachable = True and s = fmempty,
          THEN conjunct2, THEN conjunct1, THEN mp, OF r2])
  have c5: "invoke_mapping_handleApiCallProved True wrongKindEmitterEvent fmempty
      = (Inl MalformedEvent, fmempty)"
    by (rule t [where event = wrongKindEmitterEvent and reachable = True and s = fmempty,
          THEN conjunct2, THEN conjunct2, THEN conjunct1, THEN mp, OF n2])
  have c6: "fst (invoke_handleApiCallProved True deliveredEvent fmempty) = Inr ()"
    by (rule t [where event = deliveredEvent and reachable = True and s = fmempty,
          THEN conjunct2, THEN conjunct2, THEN conjunct2, THEN conjunct2, THEN conjunct1,
          THEN mp, OF r3])
  have c7: "fst (invoke_handleApiCallProved True wrongWidthHashEvent fmempty)
      = fst (invoke_handleApiCallProved True deliveredEvent fmempty)"
    unfolding wrongWidthHashEvent_def
    by (rule t [where event = deliveredEvent and reachable = True and s = fmempty
          and h = "[]",
          THEN conjunct2, THEN conjunct2, THEN conjunct2, THEN conjunct2, THEN conjunct2,
          THEN conjunct1])
  have d1: "invoke_handleApiCallProved True deliveredEvent fmempty
      = handleApiCallProved exampleEvent fmempty"
    using invoke_handleApiCallProved_decoded [OF paramsOf_deliveredEvent]
    by (simp only: decoded_deliveredEvent)
  have d2: "invoke_mapping_handleApiCallProved True deliveredEvent fmempty
      = mapping_handleApiCallProved exampleEvent fmempty"
    using invoke_mapping_handleApiCallProved_decoded [OF paramsOf_deliveredEvent]
    by (simp only: decoded_deliveredEvent)
  have c8: "fst (invoke_mapping_handleApiCallProved True deliveredEvent fmempty) = Inr ()"
    by (simp only: d2 mapping_handleApiCallProved_total)
  show ?thesis
    by (intro conjI) (rule c1 n1 c2 c3 n2 c4 c5 deliveredEvent_well_formed c6 c8 d1 d2 c7)+
qed

section \<open>All or nothing\<close>

text \<open>
  C7. For every delivered event, every store, and the store reachable or not, in both
  handlers: when the invocation fails, whichever of the three failures it is (the abort of
  \<^verbatim>\<open>toI32\<close>, the abort of a parameter getter, the store out of reach at the write), the
  store it leaves is the store it found, so every lookup gives what it gave before (an
  identifier that was not found is still not found, the entities already there are
  untouched) and the count is unchanged; when it succeeds, the store it leaves is the store
  it found with one entry put under the event's identifier, and that entry has all seven
  fields. No entity with fewer fields is ever left behind: the assignments build the entity
  outside the store and the only write is the final \<^verbatim>\<open>save\<close>. The invocation succeeds
  exactly when no statement aborts: the log index passes \<^verbatim>\<open>toI32\<close> (first handler only),
  the four parameters are present and of the right kind, and the store is reachable.
\<close>

theorem invocation_all_or_nothing:
  "(fst (invoke_handleApiCallProved reachable event s) = Inl err \<longrightarrow>
      snd (invoke_handleApiCallProved reachable event s) = s
      \<and> (\<forall>entityType i.
            store_get (snd (invoke_handleApiCallProved reachable event s)) entityType i
            = store_get s entityType i)
      \<and> entityCount (snd (invoke_handleApiCallProved reachable event s)) = entityCount s)
   \<and> (fst (invoke_handleApiCallProved reachable event s) = Inr () \<longrightarrow>
      (\<exists>i ent. snd (invoke_handleApiCallProved reachable event s)
            = fmupd (''ApiCallProved'', VBytes i) ent s
         \<and> i = hash (eventTransaction event) @ fromI32 (word_of_int (eventLogIndex event))
         \<and> entityId ent = VBytes i
         \<and> dom (entityFields ent)
             = {''callId'', ''requestHash'', ''responseHash'', ''emitter'', ''blockNumber'',
                ''blockTimestamp'', ''transactionHash''}))
   \<and> (fst (invoke_handleApiCallProved reachable event s) = Inr ())
       = (toI32 (eventLogIndex event) \<noteq> Inl Overflow \<and> parametersWellFormed event
          \<and> reachable)
   \<and> (fst (invoke_mapping_handleApiCallProved reachable event s) = Inl err \<longrightarrow>
      snd (invoke_mapping_handleApiCallProved reachable event s) = s
      \<and> (\<forall>entityType i.
            store_get (snd (invoke_mapping_handleApiCallProved reachable event s)) entityType i
            = store_get s entityType i)
      \<and> entityCount (snd (invoke_mapping_handleApiCallProved reachable event s))
          = entityCount s)
   \<and> (fst (invoke_mapping_handleApiCallProved reachable event s) = Inr () \<longrightarrow>
      (\<exists>i ent. snd (invoke_mapping_handleApiCallProved reachable event s)
            = fmupd (''ApiCall'', VString i) ent s
         \<and> i = toHex (hash (eventTransaction event)) @ '':''
               @ bigIntToString (eventLogIndex event)
         \<and> entityId ent = VString i
         \<and> dom (entityFields ent)
             = {''callId'', ''requestHash'', ''responseHash'', ''emitter'', ''txHash'',
                ''blockNumber'', ''timestamp''}))
   \<and> (fst (invoke_mapping_handleApiCallProved reachable event s) = Inr ())
       = (parametersWellFormed event \<and> reachable)"
proof (intro conjI impI)
  assume f: "fst (invoke_handleApiCallProved reachable event s) = Inl err"
  have u: "snd (invoke_handleApiCallProved reachable event s) = s"
    by (rule invoke_handleApiCallProved_failure [OF f])
  show "snd (invoke_handleApiCallProved reachable event s) = s"
    by (rule u)
  show "\<forall>entityType i.
      store_get (snd (invoke_handleApiCallProved reachable event s)) entityType i
      = store_get s entityType i"
    by (simp only: u simp_thms)
  show "entityCount (snd (invoke_handleApiCallProved reachable event s)) = entityCount s"
    by (simp only: u)
next
  assume "fst (invoke_handleApiCallProved reachable event s) = Inr ()"
  then show "\<exists>i ent. snd (invoke_handleApiCallProved reachable event s)
            = fmupd (''ApiCallProved'', VBytes i) ent s
         \<and> i = hash (eventTransaction event) @ fromI32 (word_of_int (eventLogIndex event))
         \<and> entityId ent = VBytes i
         \<and> dom (entityFields ent)
             = {''callId'', ''requestHash'', ''responseHash'', ''emitter'', ''blockNumber'',
                ''blockTimestamp'', ''transactionHash''}"
    by (rule invoke_handleApiCallProved_success)
next
  show "(fst (invoke_handleApiCallProved reachable event s) = Inr ())
       = (toI32 (eventLogIndex event) \<noteq> Inl Overflow \<and> parametersWellFormed event
          \<and> reachable)"
    by (rule invoke_handleApiCallProved_succeeds_iff)
next
  assume f: "fst (invoke_mapping_handleApiCallProved reachable event s) = Inl err"
  have u: "snd (invoke_mapping_handleApiCallProved reachable event s) = s"
    by (rule invoke_mapping_handleApiCallProved_failure [OF f])
  show "snd (invoke_mapping_handleApiCallProved reachable event s) = s"
    by (rule u)
  show "\<forall>entityType i.
      store_get (snd (invoke_mapping_handleApiCallProved reachable event s)) entityType i
      = store_get s entityType i"
    by (simp only: u simp_thms)
  show "entityCount (snd (invoke_mapping_handleApiCallProved reachable event s))
      = entityCount s"
    by (simp only: u)
next
  assume "fst (invoke_mapping_handleApiCallProved reachable event s) = Inr ()"
  then show "\<exists>i ent. snd (invoke_mapping_handleApiCallProved reachable event s)
            = fmupd (''ApiCall'', VString i) ent s
         \<and> i = toHex (hash (eventTransaction event)) @ '':''
               @ bigIntToString (eventLogIndex event)
         \<and> entityId ent = VString i
         \<and> dom (entityFields ent)
             = {''callId'', ''requestHash'', ''responseHash'', ''emitter'', ''txHash'',
                ''blockNumber'', ''timestamp''}"
    by (rule invoke_mapping_handleApiCallProved_success)
next
  show "(fst (invoke_mapping_handleApiCallProved reachable event s) = Inr ())
       = (parametersWellFormed event \<and> reachable)"
    by (rule invoke_mapping_handleApiCallProved_succeeds_iff)
qed

theorem invocation_all_or_nothing_witness:
  "fst (invoke_handleApiCallProved False deliveredEvent
          (snd (handleApiCallProved secondLogEvent fmempty))) = Inl StoreUnavailable
   \<and> snd (invoke_handleApiCallProved False deliveredEvent
          (snd (handleApiCallProved secondLogEvent fmempty)))
       = snd (handleApiCallProved secondLogEvent fmempty)
   \<and> store_get (snd (invoke_handleApiCallProved False deliveredEvent
          (snd (handleApiCallProved secondLogEvent fmempty))))
        ''ApiCallProved'' (VBytes (exampleHash @ [0, 0, 0, 0])) = None
   \<and> store_get (snd (invoke_handleApiCallProved False deliveredEvent
          (snd (handleApiCallProved secondLogEvent fmempty))))
        ''ApiCallProved'' (VBytes (exampleHash @ [1, 0, 0, 0])) \<noteq> None
   \<and> fst (invoke_handleApiCallProved True absentEmitterEvent fmempty) = Inl MalformedEvent
   \<and> snd (invoke_handleApiCallProved True absentEmitterEvent fmempty) = fmempty
   \<and> fst (invoke_handleApiCallProved True hugeIndexDelivery fmempty) = Inl Overflow
   \<and> snd (invoke_handleApiCallProved True hugeIndexDelivery fmempty) = fmempty
   \<and> fst (invoke_mapping_handleApiCallProved False deliveredEvent fmempty)
       = Inl StoreUnavailable
   \<and> snd (invoke_mapping_handleApiCallProved False deliveredEvent fmempty) = fmempty
   \<and> fst (invoke_mapping_handleApiCallProved True absentEmitterEvent fmempty)
       = Inl MalformedEvent
   \<and> snd (invoke_mapping_handleApiCallProved True absentEmitterEvent fmempty) = fmempty
   \<and> fst (invoke_handleApiCallProved True deliveredEvent fmempty) = Inr ()
   \<and> store_get (snd (invoke_handleApiCallProved True deliveredEvent fmempty))
        ''ApiCallProved'' (VBytes (exampleHash @ [0, 0, 0, 0])) \<noteq> None
   \<and> fst (invoke_mapping_handleApiCallProved True deliveredEvent fmempty) = Inr ()
   \<and> entityCount (snd (invoke_mapping_handleApiCallProved True deliveredEvent fmempty)) = 1"
proof -
  note t = invocation_all_or_nothing
  let ?s = "snd (handleApiCallProved secondLogEvent fmempty)"
  have ov: "toI32 (eventLogIndex hugeIndexDelivery) = Inl Overflow"
    by (simp add: hugeIndexDelivery_def deliveredEvent_def toI32_def)
  have ok: "toI32 (eventLogIndex deliveredEvent) = Inr 0"
    by (simp add: deliveredEvent_def toI32_def)
  have ok': "toI32 (eventLogIndex absentEmitterEvent) = Inr 0"
    by (simp add: absentEmitterEvent_def deliveredEvent_def toI32_def)
  have f1: "fst (invoke_handleApiCallProved False deliveredEvent ?s) = Inl StoreUnavailable"
    using invoke_handleApiCallProved_unreachable [OF ok paramsOf_deliveredEvent, of ?s]
    by simp
  have f2: "fst (invoke_handleApiCallProved True absentEmitterEvent fmempty)
      = Inl MalformedEvent"
    using invoke_handleApiCallProved_malformed
        [OF ok' paramsOf_malformed [OF absentEmitterEvent_malformed]]
    by simp
  have f3: "fst (invoke_handleApiCallProved True hugeIndexDelivery fmempty) = Inl Overflow"
    using invoke_handleApiCallProved_overflow [OF ov] by simp
  have f4: "fst (invoke_mapping_handleApiCallProved False deliveredEvent fmempty)
      = Inl StoreUnavailable"
    using invoke_mapping_handleApiCallProved_unreachable [OF paramsOf_deliveredEvent,
        of fmempty]
    by simp
  have f5: "fst (invoke_mapping_handleApiCallProved True absentEmitterEvent fmempty)
      = Inl MalformedEvent"
    using invoke_mapping_handleApiCallProved_malformed
        [OF paramsOf_malformed [OF absentEmitterEvent_malformed]]
    by simp
  have u1: "snd (invoke_handleApiCallProved False deliveredEvent ?s) = ?s"
    by (rule t [where event = deliveredEvent and reachable = False and s = ?s
          and err = StoreUnavailable, THEN conjunct1, THEN mp, OF f1, THEN conjunct1])
  have u2: "snd (invoke_handleApiCallProved True absentEmitterEvent fmempty) = fmempty"
    by (rule t [where event = absentEmitterEvent and reachable = True and s = fmempty
          and err = MalformedEvent, THEN conjunct1, THEN mp, OF f2, THEN conjunct1])
  have u3: "snd (invoke_handleApiCallProved True hugeIndexDelivery fmempty) = fmempty"
    by (rule t [where event = hugeIndexDelivery and reachable = True and s = fmempty
          and err = Overflow, THEN conjunct1, THEN mp, OF f3, THEN conjunct1])
  have u4: "snd (invoke_mapping_handleApiCallProved False deliveredEvent fmempty) = fmempty"
    by (rule t [where event = deliveredEvent and reachable = False and s = fmempty
          and err = StoreUnavailable, THEN conjunct2, THEN conjunct2, THEN conjunct2,
          THEN conjunct1, THEN mp, OF f4, THEN conjunct1])
  have u5: "snd (invoke_mapping_handleApiCallProved True absentEmitterEvent fmempty)
      = fmempty"
    by (rule t [where event = absentEmitterEvent and reachable = True and s = fmempty
          and err = MalformedEvent, THEN conjunct2, THEN conjunct2, THEN conjunct2,
          THEN conjunct1, THEN mp, OF f5, THEN conjunct1])
  have s2: "?s = fmupd (''ApiCallProved'', VBytes (exampleHash @ [1, 0, 0, 0]))
      (apiCallProvedEntity secondLogEvent (exampleHash @ [1, 0, 0, 0])) fmempty"
    using handleApiCallProved_Inr [OF secondLogEvent_id, of fmempty] by simp
  have g1: "store_get (snd (invoke_handleApiCallProved False deliveredEvent ?s))
      ''ApiCallProved'' (VBytes (exampleHash @ [0, 0, 0, 0])) = None"
    unfolding u1 unfolding s2 by (simp add: store_get_def)
  have g2: "store_get (snd (invoke_handleApiCallProved False deliveredEvent ?s))
      ''ApiCallProved'' (VBytes (exampleHash @ [1, 0, 0, 0])) \<noteq> None"
    unfolding u1 unfolding s2 by (simp add: store_get_def)
  have d1: "invoke_handleApiCallProved True deliveredEvent fmempty
      = handleApiCallProved exampleEvent fmempty"
    using invoke_handleApiCallProved_decoded [OF paramsOf_deliveredEvent]
    by (simp only: decoded_deliveredEvent)
  have d2: "invoke_mapping_handleApiCallProved True deliveredEvent fmempty
      = mapping_handleApiCallProved exampleEvent fmempty"
    using invoke_mapping_handleApiCallProved_decoded [OF paramsOf_deliveredEvent]
    by (simp only: decoded_deliveredEvent)
  have o1: "fst (invoke_handleApiCallProved True deliveredEvent fmempty) = Inr ()"
    unfolding d1 using handleApiCallProved_Inr [OF exampleEvent_id, of fmempty] by simp
  have o2: "store_get (snd (invoke_handleApiCallProved True deliveredEvent fmempty))
      ''ApiCallProved'' (VBytes (exampleHash @ [0, 0, 0, 0])) \<noteq> None"
    unfolding d1 using handleApiCallProved_Inr [OF exampleEvent_id, of fmempty]
    by (simp add: store_get_def)
  have o3: "fst (invoke_mapping_handleApiCallProved True deliveredEvent fmempty) = Inr ()"
    by (simp only: d2 mapping_handleApiCallProved_total)
  have o4: "entityCount (snd (invoke_mapping_handleApiCallProved True deliveredEvent fmempty))
      = 1"
    by (simp add: d2 mapping_handleApiCallProved_eq entityCount_fmupd entityCount_fmempty)
  show ?thesis
    by (intro conjI) (rule f1 u1 g1 g2 f2 u2 f3 u3 f4 u4 f5 u5 o1 o2 o3 o4)+
qed

section \<open>The life of an entity\<close>

text \<open>
  C8. Take any sequence of invocations on the store after a full reset, where every event
  has a log index that is a non-negative \<^verbatim>\<open>i32\<close> and where two events with the same
  transaction hash and log index are the same event (replays of one log). Then the store
  holds exactly one entity per distinct pair of transaction hash and log index; an entity
  that is in the store after any prefix of the sequence is in the store, with the same
  identifier and the same fields, after the whole sequence (it is neither changed nor
  removed); every event of the sequence has its entity in the final store, with the
  event's own values; and the full reset leaves no entity.
\<close>

theorem processAll_lifecycle:
  assumes r: "\<forall>e\<in>set es. 0 \<le> logIndex e \<and> logIndex e < 2 ^ 31"
    and u: "\<forall>e1\<in>set es. \<forall>e2\<in>set es.
        hash (transaction e1) = hash (transaction e2) \<and> logIndex e1 = logIndex e2
        \<longrightarrow> e1 = e2"
  shows "entityCount (processAll es fmempty)
        = card ((\<lambda>e. (hash (transaction e), logIndex e)) ` set es)
    \<and> (\<forall>xs ys entityType i ent.
          es = xs @ ys \<and> store_get (processAll xs fmempty) entityType i = Some ent
          \<longrightarrow> store_get (processAll es fmempty) entityType i = Some ent)
    \<and> (\<forall>e\<in>set es.
          store_get (processAll es fmempty) ''ApiCallProved''
            (VBytes (hash (transaction e) @ fromI32 (word_of_int (logIndex e))))
          = Some (apiCallProvedEntity e
              (hash (transaction e) @ fromI32 (word_of_int (logIndex e)))))
    \<and> entityCount (clearStore (processAll es fmempty)) = 0"
proof (intro conjI)
  show "entityCount (processAll es fmempty)
      = card ((\<lambda>e. (hash (transaction e), logIndex e)) ` set es)"
    by (rule entityCount_processAll [OF r])
next
  show keeps: "\<forall>xs ys entityType i ent.
      es = xs @ ys \<and> store_get (processAll xs fmempty) entityType i = Some ent
      \<longrightarrow> store_get (processAll es fmempty) entityType i = Some ent"
  proof (intro allI impI)
    fix xs ys entityType i ent
    assume a: "es = xs @ ys \<and> store_get (processAll xs fmempty) entityType i = Some ent"
    then have "fmlookup (processAll xs fmempty) (entityType, i) = Some ent"
      by (simp add: store_get_def)
    then have "fmlookup (processAll (xs @ ys) fmempty) (entityType, i) = Some ent"
      using processAll_keeps [of xs ys "(entityType, i)" ent] r u a by blast
    then show "store_get (processAll es fmempty) entityType i = Some ent"
      using a by (simp add: store_get_def)
  qed
  show "\<forall>e\<in>set es.
      store_get (processAll es fmempty) ''ApiCallProved''
        (VBytes (hash (transaction e) @ fromI32 (word_of_int (logIndex e))))
      = Some (apiCallProvedEntity e
          (hash (transaction e) @ fromI32 (word_of_int (logIndex e))))"
  proof
    fix e
    assume "e \<in> set es"
    then obtain xs ys where split: "es = (xs @ [e]) @ ys"
      using split_list [of e es] by auto
    have re: "0 \<le> logIndex e \<and> logIndex e < 2 ^ 31"
      using r \<open>e \<in> set es\<close> by simp
    have "store_get (processAll (xs @ [e]) fmempty) ''ApiCallProved''
        (VBytes (hash (transaction e) @ fromI32 (word_of_int (logIndex e))))
      = Some (apiCallProvedEntity e
          (hash (transaction e) @ fromI32 (word_of_int (logIndex e))))"
      by (simp add: processAll_snoc snd_handleApiCallProved_in_range [OF re] store_get_def
          apiCallProvedKey_def concatI32_def)
    with split keeps show "store_get (processAll es fmempty) ''ApiCallProved''
        (VBytes (hash (transaction e) @ fromI32 (word_of_int (logIndex e))))
      = Some (apiCallProvedEntity e
          (hash (transaction e) @ fromI32 (word_of_int (logIndex e))))"
      by blast
  qed
  show "entityCount (clearStore (processAll es fmempty)) = 0"
    by (simp add: clearStore_def entityCount_fmempty)
qed

theorem processAll_lifecycle_witness:
  "card ((\<lambda>e. (hash (transaction e), logIndex e))
       ` set [exampleEvent, secondLogEvent, exampleEvent]) = 2
   \<and> entityCount (processAll [exampleEvent, secondLogEvent, exampleEvent] fmempty) = 2
   \<and> store_get (processAll [exampleEvent] fmempty) ''ApiCallProved''
        (VBytes (exampleHash @ [0, 0, 0, 0]))
      = Some (apiCallProvedEntity exampleEvent (exampleHash @ [0, 0, 0, 0]))
   \<and> store_get (processAll [exampleEvent, secondLogEvent, exampleEvent] fmempty)
        ''ApiCallProved'' (VBytes (exampleHash @ [0, 0, 0, 0]))
      = Some (apiCallProvedEntity exampleEvent (exampleHash @ [0, 0, 0, 0]))
   \<and> entityCount (clearStore (processAll [exampleEvent, secondLogEvent, exampleEvent] fmempty))
      = 0"
proof -
  let ?es = "[exampleEvent, secondLogEvent, exampleEvent]"
  have l: "logIndex exampleEvent = 0" "logIndex secondLogEvent = 1"
    and h: "hash (transaction exampleEvent) = exampleHash"
      "hash (transaction secondLogEvent) = exampleHash"
    by (simp_all add: exampleEvent_def secondLogEvent_def)
  have r: "\<forall>e\<in>set ?es. 0 \<le> logIndex e \<and> logIndex e < 2 ^ 31"
    by (simp add: l)
  have u: "\<forall>e1\<in>set ?es. \<forall>e2\<in>set ?es.
      hash (transaction e1) = hash (transaction e2) \<and> logIndex e1 = logIndex e2
      \<longrightarrow> e1 = e2"
    by (simp add: l)
  note t = processAll_lifecycle [OF r u]
  have c: "card ((\<lambda>e. (hash (transaction e), logIndex e)) ` set ?es) = 2"
  proof -
    have "(\<lambda>e. (hash (transaction e), logIndex e)) ` set ?es
        = {(exampleHash, 0), (exampleHash, 1)}"
      by (auto simp add: l h)
    then show ?thesis by simp
  qed
  have n: "entityCount (processAll ?es fmempty) = 2"
    using t [THEN conjunct1] c by simp
  have g: "store_get (processAll [exampleEvent] fmempty) ''ApiCallProved''
        (VBytes (exampleHash @ [0, 0, 0, 0]))
      = Some (apiCallProvedEntity exampleEvent (exampleHash @ [0, 0, 0, 0]))"
    by (simp add: processAll_def handleApiCallProved_Inr [OF exampleEvent_id] store_get_def)
  have s: "?es = [exampleEvent] @ [secondLogEvent, exampleEvent]"
    by simp
  have k: "store_get (processAll ?es fmempty) ''ApiCallProved''
        (VBytes (exampleHash @ [0, 0, 0, 0]))
      = Some (apiCallProvedEntity exampleEvent (exampleHash @ [0, 0, 0, 0]))"
    using t [THEN conjunct2, THEN conjunct1, rule_format, OF conjI, OF s g] .
  have z: "entityCount (clearStore (processAll ?es fmempty)) = 0"
    by (rule t [THEN conjunct2, THEN conjunct2, THEN conjunct2])
  show ?thesis
    by (intro conjI) (rule c n g k z)+
qed

section \<open>The two handlers\<close>

text \<open>
  C9. For an event whose log index is a non-negative \<^verbatim>\<open>i32\<close>, both handlers succeed and
  each saves one entity. The two entities hold the same four event parameters and the same
  block number, block timestamp and transaction hash (under the names \<^verbatim>\<open>blockTimestamp\<close>,
  \<^verbatim>\<open>transactionHash\<close> in one and \<^verbatim>\<open>timestamp\<close>, \<^verbatim>\<open>txHash\<close> in the other). Their identifiers
  differ: one is the bytes of the transaction hash followed by the four bytes of the log
  index, the other the string made of the hash in hexadecimal, a colon and the log index
  in decimal; they differ as values, and the hexadecimal rendering of the first is not the
  second either. The entity types differ too, so on the empty store the two handlers leave
  different stores: they are not the same store transformation.
\<close>

theorem handlers_differ_in_id_scheme:
  assumes r: "0 \<le> logIndex e" "logIndex e < 2 ^ 31"
  shows "\<exists>i provedEntity callEntity.
      apiCallProvedId e = Inr i
    \<and> i = hash (transaction e) @ fromI32 (word_of_int (logIndex e))
    \<and> apiCallId e = toHex (hash (transaction e)) @ '':'' @ bigIntToString (logIndex e)
    \<and> handleApiCallProved e s
        = (Inr (), fmupd (''ApiCallProved'', VBytes i) provedEntity s)
    \<and> mapping_handleApiCallProved e s
        = (Inr (), fmupd (''ApiCall'', VString (apiCallId e)) callEntity s)
    \<and> entityFields provedEntity ''callId'' = Some (VString (callId (params e)))
    \<and> entityFields callEntity ''callId'' = Some (VString (callId (params e)))
    \<and> entityFields provedEntity ''requestHash'' = Some (VString (requestHash (params e)))
    \<and> entityFields callEntity ''requestHash'' = Some (VString (requestHash (params e)))
    \<and> entityFields provedEntity ''responseHash'' = Some (VString (responseHash (params e)))
    \<and> entityFields callEntity ''responseHash'' = Some (VString (responseHash (params e)))
    \<and> entityFields provedEntity ''emitter'' = Some (VBytes (emitter (params e)))
    \<and> entityFields callEntity ''emitter'' = Some (VBytes (emitter (params e)))
    \<and> entityFields provedEntity ''blockNumber'' = Some (VBigInt (number (block e)))
    \<and> entityFields callEntity ''blockNumber'' = Some (VBigInt (number (block e)))
    \<and> entityFields provedEntity ''blockTimestamp'' = Some (VBigInt (timestamp (block e)))
    \<and> entityFields callEntity ''timestamp'' = Some (VBigInt (timestamp (block e)))
    \<and> entityFields provedEntity ''transactionHash'' = Some (VBytes (hash (transaction e)))
    \<and> entityFields callEntity ''txHash'' = Some (VBytes (hash (transaction e)))
    \<and> entityId provedEntity = VBytes i
    \<and> entityId callEntity = VString (apiCallId e)
    \<and> entityId provedEntity \<noteq> entityId callEntity
    \<and> toHex i \<noteq> apiCallId e
    \<and> handleApiCallProved e fmempty \<noteq> mapping_handleApiCallProved e fmempty
    \<and> handleApiCallProved e \<noteq> mapping_handleApiCallProved e"
proof -
  let ?i = "hash (transaction e) @ fromI32 (word_of_int (logIndex e))"
  have i: "apiCallProvedId e = Inr ?i"
    by (rule apiCallProvedId_in_range [OF r])
  have d: "handleApiCallProved e fmempty \<noteq> mapping_handleApiCallProved e fmempty"
  proof
    assume "handleApiCallProved e fmempty = mapping_handleApiCallProved e fmempty"
    then have "fmdom (snd (handleApiCallProved e fmempty))
        = fmdom (snd (mapping_handleApiCallProved e fmempty))"
      by simp
    then show False
      by (simp add: handleApiCallProved_Inr [OF i] mapping_handleApiCallProved_eq)
  qed
  then have n: "handleApiCallProved e \<noteq> mapping_handleApiCallProved e"
    by metis
  show ?thesis
  proof (intro exI conjI)
    show "apiCallProvedId e = Inr ?i" by (rule i)
    show "?i = hash (transaction e) @ fromI32 (word_of_int (logIndex e))" by (rule refl)
    show "apiCallId e = toHex (hash (transaction e)) @ '':'' @ bigIntToString (logIndex e)"
      by (rule apiCallId_def)
    show "handleApiCallProved e s
        = (Inr (), fmupd (''ApiCallProved'', VBytes ?i) (apiCallProvedEntity e ?i) s)"
      by (rule handleApiCallProved_Inr [OF i])
    show "mapping_handleApiCallProved e s
        = (Inr (), fmupd (''ApiCall'', VString (apiCallId e)) (apiCallEntity e) s)"
      by (rule mapping_handleApiCallProved_eq)
    show "toHex ?i \<noteq> apiCallId e" by (rule toHex_neq_apiCallId)
    show "handleApiCallProved e fmempty \<noteq> mapping_handleApiCallProved e fmempty" by (rule d)
    show "handleApiCallProved e \<noteq> mapping_handleApiCallProved e" by (rule n)
  qed (simp_all add: apiCallProvedEntity_def apiCallEntity_def)
qed

theorem handlers_differ_in_id_scheme_witness:
  "apiCallProvedId exampleEvent = Inr (exampleHash @ [0, 0, 0, 0])
   \<and> toHex (exampleHash @ [0, 0, 0, 0])
       = ''0xaaaaaaaaaaaaaaaaaaaaaaaaaaaaaaaaaaaaaaaaaaaaaaaaaaaaaaaaaaaaaa0100000000''
   \<and> apiCallId exampleEvent
       = ''0xaaaaaaaaaaaaaaaaaaaaaaaaaaaaaaaaaaaaaaaaaaaaaaaaaaaaaaaaaaaaaa01:0''
   \<and> toHex (exampleHash @ [0, 0, 0, 0]) \<noteq> apiCallId exampleEvent
   \<and> handleApiCallProved exampleEvent fmempty
       \<noteq> mapping_handleApiCallProved exampleEvent fmempty"
proof -
  have r: "0 \<le> logIndex exampleEvent" "logIndex exampleEvent < 2 ^ 31"
    by (simp_all add: exampleEvent_def)
  have "\<exists>i. apiCallProvedId exampleEvent = Inr i
      \<and> toHex i \<noteq> apiCallId exampleEvent
      \<and> handleApiCallProved exampleEvent fmempty
          \<noteq> mapping_handleApiCallProved exampleEvent fmempty"
    using handlers_differ_in_id_scheme [OF r, of fmempty]
    by (elim exE conjE, intro exI conjI) assumption+
  then have "toHex (exampleHash @ [0, 0, 0, 0]) \<noteq> apiCallId exampleEvent"
    and "handleApiCallProved exampleEvent fmempty
          \<noteq> mapping_handleApiCallProved exampleEvent fmempty"
    unfolding exampleEvent_id by simp_all
  then show ?thesis
    using exampleEvent_id exampleEvent_toHex_id exampleEvent_apiCallId by simp
qed

section \<open>Frame: the other entries of the store\<close>

text \<open>
  C10. For every event and every store, an invocation of the handler changes at most the
  entry of the store whose key is the entity type \<^verbatim>\<open>ApiCallProved\<close> with the identifier
  made of the event's transaction hash and log index: the lookup of any other key gives
  after the invocation what it gave before. (An invocation that aborts changes no entry.)
  The handler of \<^verbatim>\<open>mapping.ts\<close> changes at most the entry of type \<^verbatim>\<open>ApiCall\<close> under the
  string identifier.
\<close>

theorem handleApiCallProved_frame:
  "((entityType, i) \<noteq> apiCallProvedKey e \<longrightarrow>
      store_get (snd (handleApiCallProved e s)) entityType i = store_get s entityType i)
   \<and> ((entityType, i) \<noteq> (''ApiCall'', VString (apiCallId e)) \<longrightarrow>
      store_get (snd (mapping_handleApiCallProved e s)) entityType i
        = store_get s entityType i)"
proof (intro conjI impI)
  assume k: "(entityType, i) \<noteq> apiCallProvedKey e"
  show "store_get (snd (handleApiCallProved e s)) entityType i = store_get s entityType i"
  proof (cases "apiCallProvedId e")
    case (Inl err)
    then show ?thesis by (simp add: handleApiCallProved_Inl)
  next
    case (Inr b)
    then have "(''ApiCallProved'', VBytes b) = apiCallProvedKey e"
      using apiCallProvedId_Inr [OF Inr] by (simp add: apiCallProvedKey_def)
    then show ?thesis
      using k by (simp add: handleApiCallProved_Inr [OF Inr] store_get_def)
  qed
next
  assume "(entityType, i) \<noteq> (''ApiCall'', VString (apiCallId e))"
  then show "store_get (snd (mapping_handleApiCallProved e s)) entityType i
      = store_get s entityType i"
    by (rule mapping_handleApiCallProved_other)
qed

theorem handleApiCallProved_frame_witness:
  "(''ApiCallProved'', VBytes (exampleHash @ [1, 0, 0, 0])) \<noteq> apiCallProvedKey exampleEvent
   \<and> (''ApiCallProved'', VBytes (exampleHash @ [1, 0, 0, 0]))
       \<noteq> (''ApiCall'', VString (apiCallId exampleEvent))
   \<and> store_get (snd (handleApiCallProved secondLogEvent fmempty)) ''ApiCallProved''
        (VBytes (exampleHash @ [1, 0, 0, 0]))
      = Some (apiCallProvedEntity secondLogEvent (exampleHash @ [1, 0, 0, 0]))
   \<and> store_get (snd (handleApiCallProved exampleEvent
          (snd (handleApiCallProved secondLogEvent fmempty)))) ''ApiCallProved''
        (VBytes (exampleHash @ [1, 0, 0, 0]))
      = Some (apiCallProvedEntity secondLogEvent (exampleHash @ [1, 0, 0, 0]))
   \<and> store_get (snd (mapping_handleApiCallProved exampleEvent
          (snd (handleApiCallProved secondLogEvent fmempty)))) ''ApiCallProved''
        (VBytes (exampleHash @ [1, 0, 0, 0]))
      = Some (apiCallProvedEntity secondLogEvent (exampleHash @ [1, 0, 0, 0]))"
proof -
  have k: "(''ApiCallProved'', VBytes (exampleHash @ [1, 0, 0, 0]))
      \<noteq> apiCallProvedKey exampleEvent"
    by (simp add: apiCallProvedKey_def exampleEvent_def concatI32_def fromI32_def)
  have m: "(''ApiCallProved'', VBytes (exampleHash @ [1, 0, 0, 0]))
       \<noteq> (''ApiCall'', VString (apiCallId exampleEvent))"
    by simp
  have g: "store_get (snd (handleApiCallProved secondLogEvent fmempty)) ''ApiCallProved''
        (VBytes (exampleHash @ [1, 0, 0, 0]))
      = Some (apiCallProvedEntity secondLogEvent (exampleHash @ [1, 0, 0, 0]))"
    by (simp add: handleApiCallProved_Inr [OF secondLogEvent_id] store_get_def)
  note t = handleApiCallProved_frame
    [where e = exampleEvent and s = "snd (handleApiCallProved secondLogEvent fmempty)"
       and entityType = "''ApiCallProved''" and i = "VBytes (exampleHash @ [1, 0, 0, 0])"]
  have a: "store_get (snd (handleApiCallProved exampleEvent
          (snd (handleApiCallProved secondLogEvent fmempty)))) ''ApiCallProved''
        (VBytes (exampleHash @ [1, 0, 0, 0]))
      = Some (apiCallProvedEntity secondLogEvent (exampleHash @ [1, 0, 0, 0]))"
    using t [THEN conjunct1, THEN mp, OF k] g by simp
  have b: "store_get (snd (mapping_handleApiCallProved exampleEvent
          (snd (handleApiCallProved secondLogEvent fmempty)))) ''ApiCallProved''
        (VBytes (exampleHash @ [1, 0, 0, 0]))
      = Some (apiCallProvedEntity secondLogEvent (exampleHash @ [1, 0, 0, 0]))"
    using t [THEN conjunct2, THEN mp, OF m] g by simp
  show ?thesis
    by (intro conjI) (rule k m g a b)+
qed

end
